theory Spec2Isabelle
  imports Main "HOL-Library.AList" "HOL-Library.Multiset"
begin

section \<open>JavaScript values\<close>

text \<open>
  The records handled by the library are plain JavaScript objects of type \<open>any\<close>.
  A property value is one of the primitive values below; numbers are the integral
  numbers (keys, counters and millisecond timestamps), so \<open>NaN\<close> and fractions are
  outside the model. An object is the list of its own properties in insertion order;
  reading a property that is absent gives \<open>undefined\<close>.
\<close>

datatype jsval = Undefined | Null | Num int | Str string | Bool bool

type_synonym jsobj = "(string \<times> jsval) list"

definition getField :: "jsobj \<Rightarrow> string \<Rightarrow> jsval" where
  "getField obj f = (case map_of obj f of None \<Rightarrow> Undefined | Some v \<Rightarrow> v)"

text \<open>\<open>{...a, ...b}\<close>: the properties of \<open>b\<close> are written over those of \<open>a\<close>.\<close>

definition spread :: "jsobj \<Rightarrow> jsobj \<Rightarrow> jsobj" where
  "spread a b = fold (\<lambda>(f, v) acc. AList.update f v acc) b a"

fun truthy :: "jsval \<Rightarrow> bool" where
  "truthy Undefined = False"
| "truthy Null = False"
| "truthy (Num n) = (n \<noteq> 0)"
| "truthy (Str s) = (s \<noteq> [])"
| "truthy (Bool b) = b"

section \<open>Errors\<close>

datatype error =
    KeyNullError
  | DataError
  | ConstraintError
  | NotFoundError
  | InvalidStateError
  | ItemNotFound jsval
  | TableNotFound string
  | DatabaseNotOpen
  | UpgradeRequired string
  | RemoteError string
  | TypeError
  | SyntaxError

section \<open>The object stores of the local database\<close>

text \<open>
  The storage engine (IndexedDB) is a collaborator of the library. An object store keeps
  its rows in ascending key order; numbers sort before strings, strings by their
  character codes. \<open>store_write\<close> is \<open>IDBObjectStore.add\<close> (first argument
  \<open>True\<close>) and \<open>IDBObjectStore.put\<close> (first argument \<open>False\<close>).
\<close>

fun str_lt :: "string \<Rightarrow> string \<Rightarrow> bool" where
  "str_lt [] [] = False"
| "str_lt [] (y # ys) = True"
| "str_lt (x # xs) [] = False"
| "str_lt (x # xs) (y # ys) =
     ((of_char x :: nat) < of_char y \<or> (x = y \<and> str_lt xs ys))"

fun key_lt :: "jsval \<Rightarrow> jsval \<Rightarrow> bool" where
  "key_lt (Num a) (Num b) = (a < b)"
| "key_lt (Num a) (Str b) = True"
| "key_lt (Str a) (Str b) = str_lt a b"
| "key_lt _ _ = False"

fun valid_key :: "jsval \<Rightarrow> bool" where
  "valid_key (Num n) = True"
| "valid_key (Str s) = True"
| "valid_key _ = False"

fun rows_put :: "jsval \<Rightarrow> 'v \<Rightarrow> (jsval \<times> 'v) list \<Rightarrow> (jsval \<times> 'v) list" where
  "rows_put k v [] = [(k, v)]"
| "rows_put k v ((k', v') # rs) =
     (if k = k' then (k, v) # rs
      else if key_lt k k' then (k, v) # (k', v') # rs
      else (k', v') # rows_put k v rs)"

record objectStore =
  keyPath :: "string option"
  autoIncrement :: bool
  keyGen :: int
  rows :: "(jsval \<times> jsobj) list"

definition store_get :: "objectStore \<Rightarrow> jsval \<Rightarrow> error + jsobj option" where
  "store_get st k = (if valid_key k then Inr (map_of (rows st) k) else Inl DataError)"

definition store_getAll :: "objectStore \<Rightarrow> jsobj list" where
  "store_getAll st = map snd (rows st)"

definition store_commit ::
  "bool \<Rightarrow> objectStore \<Rightarrow> jsval \<Rightarrow> jsobj \<Rightarrow> error + jsval \<times> objectStore" where
  "store_commit noOverwrite st k v =
     (if noOverwrite \<and> map_of (rows st) k \<noteq> None then Inl ConstraintError
      else Inr (k, st\<lparr>rows := rows_put k v (rows st),
                      keyGen := (case k of Num n \<Rightarrow>
                                   if autoIncrement st \<and> keyGen st \<le> n then n + 1 else keyGen st
                                 | _ \<Rightarrow> keyGen st)\<rparr>))"

definition store_write ::
  "bool \<Rightarrow> objectStore \<Rightarrow> jsobj \<Rightarrow> jsval \<Rightarrow> error + jsval \<times> objectStore" where
  "store_write noOverwrite st v k =
     (case keyPath st of
        Some p \<Rightarrow>
          if k \<noteq> Undefined then Inl DataError
          else (case map_of v p of
                  None \<Rightarrow>
                    if autoIncrement st
                    then store_commit noOverwrite st (Num (keyGen st))
                           (AList.update p (Num (keyGen st)) v)
                    else Inl DataError
                | Some k' \<Rightarrow>
                    if valid_key k' then store_commit noOverwrite st k' v else Inl DataError)
      | None \<Rightarrow>
          if k \<noteq> Undefined
          then (if valid_key k then store_commit noOverwrite st k v else Inl DataError)
          else if autoIncrement st then store_commit noOverwrite st (Num (keyGen st)) v
          else Inl DataError)"

definition store_delete :: "objectStore \<Rightarrow> jsval \<Rightarrow> error + objectStore" where
  "store_delete st k =
     (if valid_key k then Inr (st\<lparr>rows := filter (\<lambda>r. fst r \<noteq> k) (rows st)\<rparr>)
      else Inl DataError)"

section \<open>Change records and the state of a database\<close>

datatype operation = Create | Update | Delete

record ChangeRecord =
  change_id :: string
  table :: string
  key :: jsval
  operation :: operation
  data :: "jsobj option"
  timestamp :: int
  synced :: bool

datatype sync_status = Idle | Syncing | Error

record SyncMetadata =
  meta_table :: string
  lastSyncTimestamp :: int
  pendingChanges :: nat
  syncStatus :: sync_status

datatype remote_call =
    Upsert string "jsobj list"
  | DeleteIn string "jsval list"
  | SelectSince string "int option"

datatype remote_reply = Reply "jsobj list" | Failure string

text \<open>
  The state threaded through every call: the open flag of the connection, the user
  tables, the two reserved stores (\<open>None\<close> when the store does not exist), the
  in-memory change queue of \<open>Database\<close>, the engine's \<open>isSyncing\<close> flag, the trace
  of requests sent to the remote backend and of \<open>console.error\<close> lines, and the
  environment: what \<open>Date.now()\<close> and \<open>Math.random()\<close> return at each reading
  (\<open>idSource\<close> is the change id built from both, \<open>clockSource\<close> the time), what
  \<open>Date.parse\<close> makes of a string (\<open>None\<close> is \<open>NaN\<close>) and how the remote backend
  answers a request given the requests before it.
\<close>

record state =
  opened :: bool
  tables :: "(string \<times> objectStore) list"
  changesStore :: "ChangeRecord list option"
  metadataStore :: "SyncMetadata list option"
  changeQueue :: "ChangeRecord list"
  isSyncing :: bool
  remoteCalls :: "remote_call list"
  consoleErrors :: "string list"
  ticks :: nat
  idSource :: "nat \<Rightarrow> string"
  clockSource :: "nat \<Rightarrow> int"
  dateParse :: "string \<Rightarrow> int option"
  backend :: "remote_call list \<Rightarrow> remote_call \<Rightarrow> remote_reply"

text \<open>
  A call either throws (\<open>Inl\<close>) or returns (\<open>Inr\<close>); in both cases the writes it
  made before stay in the state.
\<close>

type_synonym 'a io = "state \<Rightarrow> (error + 'a) \<times> state"

definition ret :: "'a \<Rightarrow> 'a io" where
  "ret a s = (Inr a, s)"

definition throw :: "error \<Rightarrow> 'a io" where
  "throw e s = (Inl e, s)"

definition bind :: "'a io \<Rightarrow> ('a \<Rightarrow> 'b io) \<Rightarrow> 'b io" where
  "bind m f s = (case m s of (Inl e, s') \<Rightarrow> (Inl e, s') | (Inr a, s') \<Rightarrow> f a s')"

definition lift :: "error + 'a \<Rightarrow> 'a io" where
  "lift r s = (r, s)"

section \<open>The change log (the \<open>_changes\<close> store)\<close>

text \<open>
  The store has key path \<open>id\<close>; its rows are kept in ascending order of the id.
  \<open>changes_add\<close> is \<open>store.add(changeRecord)\<close> as \<open>trackChange\<close> issues it: the
  request is not awaited, so a key that exists already leaves the store as it is.
\<close>

fun changes_insert :: "ChangeRecord \<Rightarrow> ChangeRecord list \<Rightarrow> ChangeRecord list" where
  "changes_insert c [] = [c]"
| "changes_insert c (d # ds) =
     (if str_lt (change_id c) (change_id d) then c # d # ds else d # changes_insert c ds)"

definition changes_add :: "ChangeRecord \<Rightarrow> ChangeRecord list \<Rightarrow> ChangeRecord list" where
  "changes_add c cs =
     (if change_id c \<in> set (map change_id cs) then cs else changes_insert c cs)"

definition changes_get :: "ChangeRecord list \<Rightarrow> string \<Rightarrow> ChangeRecord option" where
  "changes_get cs i = find (\<lambda>c. change_id c = i) cs"

definition changes_put :: "ChangeRecord \<Rightarrow> ChangeRecord list \<Rightarrow> ChangeRecord list" where
  "changes_put c cs =
     (if change_id c \<in> set (map change_id cs)
      then map (\<lambda>d. if change_id d = change_id c then c else d) cs
      else changes_insert c cs)"

text \<open>\<open>Database.trackChange\<close>.\<close>

definition trackChange ::
  "string \<Rightarrow> jsval \<Rightarrow> operation \<Rightarrow> jsobj option \<Rightarrow> unit io" where
  "trackChange tableName k opn d s =
     (let changeRecord = \<lparr>change_id = idSource s (ticks s), table = tableName, key = k,
                           operation = opn, data = d, timestamp = clockSource s (ticks s),
                           synced = False\<rparr>;
          s1 = s\<lparr>changeQueue := changeQueue s @ [changeRecord], ticks := Suc (ticks s)\<rparr>
      in if opened s1
         then (case changesStore s1 of
                 None \<Rightarrow> (Inl NotFoundError, s1)
               | Some cs \<Rightarrow> (Inr (), s1\<lparr>changesStore := Some (changes_add changeRecord cs)\<rparr>))
         else (Inr (), s1))"

section \<open>Table\<close>

text \<open>\<open>serializeKey\<close> on the primitive values.\<close>

fun serializeKey :: "jsval \<Rightarrow> error + jsval" where
  "serializeKey Null = Inl KeyNullError"
| "serializeKey Undefined = Inl KeyNullError"
| "serializeKey (Str s) = Inr (Str s)"
| "serializeKey (Num n) = Inr (Num n)"
| "serializeKey (Bool b) = Inr (Str (if b then ''true'' else ''false''))"

text \<open>
  \<open>db.transaction([storeName], mode).objectStore(storeName)\<close>: fails on a closed
  connection and on a store that does not exist.
\<close>

definition openStore :: "string \<Rightarrow> objectStore io" where
  "openStore t s =
     (if \<not> opened s then (Inl InvalidStateError, s)
      else (case map_of (tables s) t of
              None \<Rightarrow> (Inl NotFoundError, s)
            | Some st \<Rightarrow> (Inr st, s)))"

definition saveStore :: "string \<Rightarrow> objectStore \<Rightarrow> unit io" where
  "saveStore t st s = (Inr (), s\<lparr>tables := AList.update t st (tables s)\<rparr>)"

text \<open>The \<open>add\<close> and \<open>put\<close> helpers of the storage wrapper, on the store of table \<open>t\<close>.\<close>

definition idbAdd :: "string \<Rightarrow> objectStore \<Rightarrow> jsobj \<Rightarrow> jsval \<Rightarrow> jsval io" where
  "idbAdd t st v k =
     bind (lift (store_write True st v k)) (\<lambda>(r, st'). bind (saveStore t st') (\<lambda>_. ret r))"

definition idbPut :: "string \<Rightarrow> objectStore \<Rightarrow> jsobj \<Rightarrow> jsval \<Rightarrow> jsval io" where
  "idbPut t st v k =
     bind (lift (store_write False st v (if k \<noteq> Undefined \<and> k \<noteq> Null then k else Undefined)))
       (\<lambda>(r, st'). bind (saveStore t st') (\<lambda>_. ret r))"

definition getKeyFromItem :: "string option \<Rightarrow> jsobj \<Rightarrow> jsval" where
  "getKeyFromItem kp item = (case kp of None \<Rightarrow> Undefined | Some p \<Rightarrow> getField item p)"

definition Table_get :: "string \<Rightarrow> jsval \<Rightarrow> jsobj option io" where
  "Table_get t k =
     bind (openStore t) (\<lambda>st.
     bind (lift (serializeKey k)) (\<lambda>serializedKey.
     lift (store_get st serializedKey)))"

definition Table_getAll :: "string \<Rightarrow> jsobj list io" where
  "Table_getAll t = bind (openStore t) (\<lambda>st. ret (store_getAll st))"

definition Table_add :: "string \<Rightarrow> jsobj \<Rightarrow> jsval \<Rightarrow> jsval io" where
  "Table_add t item k =
     bind (openStore t) (\<lambda>st.
     bind (if k \<noteq> Undefined
           then bind (lift (serializeKey k)) (\<lambda>sk. idbAdd t st item sk)
           else idbAdd t st item Undefined) (\<lambda>result.
     let itemKey = (if keyPath st \<noteq> None \<and> k = Undefined then result
                    else if k \<noteq> Undefined then k
                    else getKeyFromItem (keyPath st) item);
         itemWithKey = (case keyPath st of
                          Some p \<Rightarrow> AList.update p itemKey item
                        | None \<Rightarrow> item)
     in bind (trackChange t itemKey Create (Some itemWithKey)) (\<lambda>_. ret result)))"

definition Table_put :: "string \<Rightarrow> jsobj \<Rightarrow> jsval \<Rightarrow> jsval io" where
  "Table_put t item k =
     bind (openStore t) (\<lambda>st.
     bind (if keyPath st \<noteq> None then idbPut t st item Undefined
           else if k \<noteq> Undefined \<and> k \<noteq> Null
           then bind (lift (serializeKey k)) (\<lambda>sk. idbPut t st item sk)
           else idbPut t st item Undefined) (\<lambda>result.
     let itemKey = getKeyFromItem (keyPath st) item
     in bind (trackChange t itemKey Update (Some item)) (\<lambda>_. ret result)))"

definition Table_update :: "string \<Rightarrow> jsval \<Rightarrow> jsobj \<Rightarrow> jsval io" where
  "Table_update t k changes =
     bind (Table_get t k) (\<lambda>existing.
     case existing of
       None \<Rightarrow> throw (ItemNotFound k)
     | Some e \<Rightarrow>
         bind (openStore t) (\<lambda>st.
         let updated = spread e changes
         in if keyPath st \<noteq> None then Table_put t updated Undefined
            else Table_put t updated k))"

definition Table_delete :: "string \<Rightarrow> jsval \<Rightarrow> unit io" where
  "Table_delete t k =
     bind (openStore t) (\<lambda>st.
     bind (lift (serializeKey k)) (\<lambda>serializedKey.
     bind (lift (store_delete st serializedKey)) (\<lambda>st'.
     bind (saveStore t st') (\<lambda>_.
     trackChange t k Delete None))))"


text \<open>
  The bulk variants start one call per element under \<open>Promise.all\<close>: every element
  runs, whether or not another one fails, and the bulk call fails when one of them did.
\<close>

fun promiseAll :: "('a \<Rightarrow> 'b io) \<Rightarrow> 'a list \<Rightarrow> 'b list io" where
  "promiseAll f [] s = (Inr [], s)"
| "promiseAll f (x # xs) s =
     (case f x s of (r, s1) \<Rightarrow>
        (case promiseAll f xs s1 of (rs, s2) \<Rightarrow>
           ((case r of Inl e \<Rightarrow> Inl e
             | Inr a \<Rightarrow> (case rs of Inl e \<Rightarrow> Inl e | Inr as \<Rightarrow> Inr (a # as))), s2)))"

definition bulkAdd :: "string \<Rightarrow> jsobj list \<Rightarrow> jsval list io" where
  "bulkAdd t items = promiseAll (\<lambda>item. Table_add t item Undefined) items"

definition bulkPut :: "string \<Rightarrow> jsobj list \<Rightarrow> jsval list io" where
  "bulkPut t items = promiseAll (\<lambda>item. Table_put t item Undefined) items"

definition bulkDelete :: "string \<Rightarrow> jsval list \<Rightarrow> unit list io" where
  "bulkDelete t keys = promiseAll (\<lambda>k. Table_delete t k) keys"

section \<open>ChangeTracker\<close>

definition changesTransaction :: "ChangeRecord list io" where
  "changesTransaction s =
     (if \<not> opened s then (Inl InvalidStateError, s)
      else (case changesStore s of None \<Rightarrow> (Inl NotFoundError, s) | Some cs \<Rightarrow> (Inr cs, s)))"

definition getPendingChanges :: "string option \<Rightarrow> ChangeRecord list io" where
  "getPendingChanges tbl s =
     (if changesStore s = None then (Inl (UpgradeRequired ''_changes''), s)
      else bind changesTransaction (\<lambda>cs.
             let changes = filter (\<lambda>c. \<not> synced c) cs
             in ret (case tbl of
                       None \<Rightarrow> changes
                     | Some t \<Rightarrow> if t \<noteq> [] then filter (\<lambda>c. table c = t) changes
                                 else changes)) s)"

definition markOne :: "string \<Rightarrow> ChangeRecord list \<Rightarrow> ChangeRecord list" where
  "markOne i cs =
     (case changes_get cs i of
        None \<Rightarrow> cs
      | Some change \<Rightarrow> changes_put (change\<lparr>synced := True\<rparr>) cs)"

definition markAsSynced :: "string \<Rightarrow> unit io" where
  "markAsSynced changeId s =
     (if changesStore s = None then (Inl (UpgradeRequired ''_changes''), s)
      else bind changesTransaction (\<lambda>cs s'.
             (Inr (), s'\<lparr>changesStore := Some (markOne changeId cs)\<rparr>)) s)"

definition markMultipleAsSynced :: "string list \<Rightarrow> unit io" where
  "markMultipleAsSynced changeIds s =
     (if changesStore s = None then (Inl (UpgradeRequired ''_changes''), s)
      else bind changesTransaction (\<lambda>cs s'.
             (Inr (), s'\<lparr>changesStore := Some (fold markOne changeIds cs)\<rparr>)) s)"

definition clearSyncedChanges :: "unit io" where
  "clearSyncedChanges s =
     (if changesStore s = None then (Inr (), s)
      else bind changesTransaction (\<lambda>cs s'.
             let synced_changes = filter (\<lambda>c. synced c = True) cs
             in (Inr (), s'\<lparr>changesStore :=
                   Some (fold (\<lambda>change acc. filter (\<lambda>c. change_id c \<noteq> change_id change) acc)
                           synced_changes cs)\<rparr>)) s)"

definition getChangesByTable :: "string \<Rightarrow> ChangeRecord list io" where
  "getChangesByTable t s =
     (if changesStore s = None then (Inr [], s)
      else bind changesTransaction (\<lambda>cs. ret (filter (\<lambda>c. table c = t) cs)) s)"

section \<open>Sync metadata\<close>

definition getSyncMetadata :: "string \<Rightarrow> SyncMetadata option io" where
  "getSyncMetadata t s =
     (case metadataStore s of
        None \<Rightarrow> (Inr None, s)
      | Some ms \<Rightarrow>
          if \<not> opened s then (Inl InvalidStateError, s)
          else (Inr (find (\<lambda>m. meta_table m = t) ms), s))"

fun metadata_put :: "SyncMetadata \<Rightarrow> SyncMetadata list \<Rightarrow> SyncMetadata list" where
  "metadata_put m [] = [m]"
| "metadata_put m (d # ds) =
     (if meta_table d = meta_table m then m # ds
      else if str_lt (meta_table m) (meta_table d) then m # d # ds
      else d # metadata_put m ds)"

definition setSyncMetadata :: "SyncMetadata \<Rightarrow> unit io" where
  "setSyncMetadata m s =
     (case metadataStore s of
        None \<Rightarrow> (Inl (UpgradeRequired ''_metadata''), s)
      | Some ms \<Rightarrow>
          if \<not> opened s then (Inl InvalidStateError, s)
          else (Inr (), s\<lparr>metadataStore := Some (metadata_put m ms)\<rparr>))"

section \<open>ConflictResolver\<close>

text \<open>
  A timestamp is a JavaScript number: \<open>None\<close> stands for \<open>NaN\<close>, against which
  every comparison is false.
\<close>

record Conflict =
  local :: jsobj
  remote :: jsobj
  conflict_table :: string
  conflict_key :: jsval
  localTimestamp :: "int option"
  remoteTimestamp :: "int option"

datatype strategy =
    LastWriteWins
  | LocalWins
  | RemoteWins
  | Custom "Conflict \<Rightarrow> error + jsobj"
  | Unrecognized string

definition num_gt :: "int option \<Rightarrow> int option \<Rightarrow> bool" where
  "num_gt a b = (case (a, b) of (Some x, Some y) \<Rightarrow> x > y | _ \<Rightarrow> False)"

definition abs_diff :: "int option \<Rightarrow> int option \<Rightarrow> int option" where
  "abs_diff a b = (case (a, b) of (Some x, Some y) \<Rightarrow> Some \<bar>x - y\<bar> | _ \<Rightarrow> None)"

definition resolve :: "Conflict \<Rightarrow> strategy \<Rightarrow> jsobj io" where
  "resolve conflict strat =
     (case strat of
        Custom f \<Rightarrow> lift (f conflict)
      | LastWriteWins \<Rightarrow>
          ret (if num_gt (remoteTimestamp conflict) (localTimestamp conflict)
               then remote conflict else local conflict)
      | LocalWins \<Rightarrow> ret (local conflict)
      | RemoteWins \<Rightarrow> ret (remote conflict)
      | Unrecognized _ \<Rightarrow>
          ret (if num_gt (remoteTimestamp conflict) (localTimestamp conflict)
               then remote conflict else local conflict))"

text \<open>\<open>new Date(v).getTime()\<close> for a truthy or falsy primitive \<open>v\<close>.\<close>

definition getTime :: "(string \<Rightarrow> int option) \<Rightarrow> jsval \<Rightarrow> int option" where
  "getTime parse v =
     (case v of
        Num n \<Rightarrow> if \<bar>n\<bar> \<le> 8640000000000000 then Some n else None
      | Str x \<Rightarrow> parse x
      | Bool b \<Rightarrow> Some (if b then 1 else 0)
      | Null \<Rightarrow> Some 0
      | Undefined \<Rightarrow> None)"

definition dateNow :: "int io" where
  "dateNow s = (Inr (clockSource s (ticks s)), s\<lparr>ticks := Suc (ticks s)\<rparr>)"

text \<open>
  The timestamp \<open>detectConflict\<close> derives from a record: \<open>updated_at\<close> when it is
  truthy, else \<open>created_at\<close> when that is truthy, else the current time.
\<close>

definition recordTimestamp :: "jsobj \<Rightarrow> int option io" where
  "recordTimestamp r s =
     (if truthy (getField r ''updated_at'')
      then (Inr (getTime (dateParse s) (getField r ''updated_at'')), s)
      else if truthy (getField r ''created_at'')
      then (Inr (getTime (dateParse s) (getField r ''created_at'')), s)
      else bind dateNow (\<lambda>now. ret (Some now)) s)"

definition conflictThreshold :: int where
  "conflictThreshold = 1000"

definition detectConflict :: "jsobj \<Rightarrow> jsobj \<Rightarrow> string \<Rightarrow> jsval \<Rightarrow> Conflict option io" where
  "detectConflict l r t k =
     bind (recordTimestamp l) (\<lambda>lt.
     bind (recordTimestamp r) (\<lambda>rt.
     ret (if num_gt (abs_diff lt rt) (Some conflictThreshold)
          then Some \<lparr>local = l, remote = r, conflict_table = t, conflict_key = k,
                     localTimestamp = lt, remoteTimestamp = rt\<rparr>
          else None)))"


section \<open>SupabaseAdapter\<close>

record SupabaseConfig =
  config_tables :: "(string \<times> string) list"
  conflictResolution :: "strategy option"

definition getSupabaseTableName :: "SupabaseConfig \<Rightarrow> string \<Rightarrow> string" where
  "getSupabaseTableName cfg localTableName =
     (case map_of (config_tables cfg) localTableName of
        Some n \<Rightarrow> if n \<noteq> [] then n else localTableName
      | None \<Rightarrow> localTableName)"

text \<open>One request to the remote backend: it is appended to the trace and answered.\<close>

definition request :: "remote_call \<Rightarrow> remote_reply io" where
  "request c s = (Inr (backend s (remoteCalls s) c), s\<lparr>remoteCalls := remoteCalls s @ [c]\<rparr>)"

definition consoleError :: "string \<Rightarrow> unit io" where
  "consoleError msg s = (Inr (), s\<lparr>consoleErrors := consoleErrors s @ [msg]\<rparr>)"

definition adapter_pull :: "SupabaseConfig \<Rightarrow> string \<Rightarrow> int option \<Rightarrow> jsobj list io" where
  "adapter_pull cfg tableName lastSync =
     bind (request (SelectSince (getSupabaseTableName cfg tableName)
                      (case lastSync of
                         Some ts \<Rightarrow> if ts \<noteq> 0 then Some ts else None
                       | None \<Rightarrow> None))) (\<lambda>reply.
     case reply of
       Failure msg \<Rightarrow> throw (RemoteError msg)
     | Reply rs \<Rightarrow> ret rs)"

definition adapter_push :: "SupabaseConfig \<Rightarrow> string \<Rightarrow> jsobj list \<Rightarrow> unit io" where
  "adapter_push cfg tableName records =
     (if records = [] then ret ()
      else bind (request (Upsert (getSupabaseTableName cfg tableName) records)) (\<lambda>reply.
           case reply of
             Failure msg \<Rightarrow>
               bind (consoleError ''[Localbase] Supabase upsert error for table'') (\<lambda>_.
               bind (consoleError ''[Localbase] First record that failed:'') (\<lambda>_.
               throw (RemoteError msg)))
           | Reply _ \<Rightarrow> ret ()))"

definition adapter_delete :: "SupabaseConfig \<Rightarrow> string \<Rightarrow> jsval list \<Rightarrow> unit io" where
  "adapter_delete cfg tableName keys =
     (if keys = [] then ret ()
      else bind (request (DeleteIn (getSupabaseTableName cfg tableName) keys)) (\<lambda>reply.
           case reply of
             Failure msg \<Rightarrow> throw (RemoteError msg)
           | Reply _ \<Rightarrow> ret ()))"

section \<open>SyncEngine\<close>

definition catch :: "'a io \<Rightarrow> (error \<Rightarrow> 'a io) \<Rightarrow> 'a io" where
  "catch m h s = (case m s of (Inl e, s') \<Rightarrow> h e s' | (Inr a, s') \<Rightarrow> (Inr a, s'))"

text \<open>
  The guard and the \<open>try ... finally\<close> that \<open>push\<close>, \<open>pull\<close> and \<open>pushAll\<close>
  share: a call made while the flag is set returns at once; otherwise the flag is set,
  the body runs, and the flag is cleared however the body ends.
\<close>

definition singleFlight :: "unit io \<Rightarrow> unit io" where
  "singleFlight body s =
     (if isSyncing s then (Inr (), s)
      else (case body (s\<lparr>isSyncing := True\<rparr>) of
              (r, s') \<Rightarrow> (r, s'\<lparr>isSyncing := False\<rparr>)))"

definition getChangeTracker :: "unit io" where
  "getChangeTracker s = (if \<not> opened s then (Inl DatabaseNotOpen, s) else (Inr (), s))"

text \<open>\<open>Database.table(name)\<close>: the table must be one of the schema's.\<close>

definition db_table :: "string \<Rightarrow> unit io" where
  "db_table name s =
     (if map_of (tables s) name = None \<or> \<not> opened s then (Inl (TableNotFound name), s)
      else (Inr (), s))"

text \<open>
  The \<open>Map\<close> keyed by \<open>record.id\<close> that deduplicates the records of a batch: a
  record without an id is skipped, a later record replaces an earlier one with the same
  id in place. Reading \<open>id\<close> off a change without data throws.
\<close>

fun dedupById :: "jsobj option list \<Rightarrow> (jsval \<times> jsobj) list \<Rightarrow> error + (jsval \<times> jsobj) list" where
  "dedupById [] recordsMap = Inr recordsMap"
| "dedupById (None # rs) recordsMap = Inl TypeError"
| "dedupById (Some r # rs) recordsMap =
     (if getField r ''id'' \<noteq> Undefined \<and> getField r ''id'' \<noteq> Null
      then dedupById rs (AList.update (getField r ''id'') r recordsMap)
      else dedupById rs recordsMap)"

definition creates_of :: "ChangeRecord list \<Rightarrow> jsobj option list" where
  "creates_of changes = map data (filter (\<lambda>c. operation c = Create) changes)"

definition updates_of :: "ChangeRecord list \<Rightarrow> jsobj option list" where
  "updates_of changes = map data (filter (\<lambda>c. operation c = Update) changes)"

definition deletes_of :: "ChangeRecord list \<Rightarrow> jsval list" where
  "deletes_of changes = map key (filter (\<lambda>c. operation c = Delete) changes)"

definition recordsToPush :: "ChangeRecord list \<Rightarrow> error + jsobj list" where
  "recordsToPush changes =
     (case dedupById (creates_of changes) [] of
        Inl e \<Rightarrow> Inl e
      | Inr m \<Rightarrow> (case dedupById (updates_of changes) m of
                    Inl e \<Rightarrow> Inl e
                  | Inr m' \<Rightarrow> Inr (map snd m')))"

text \<open>
  The two blocks of \<open>pushTableChanges\<close> that talk to the remote backend: the upsert of
  the deduplicated creates and updates, and the delete of the deleted keys.
\<close>

definition upsertStep :: "SupabaseConfig \<Rightarrow> string \<Rightarrow> ChangeRecord list \<Rightarrow> unit io" where
  "upsertStep cfg tableName changes =
     (if creates_of changes \<noteq> [] \<or> updates_of changes \<noteq> []
      then bind (lift (recordsToPush changes)) (\<lambda>rs. adapter_push cfg tableName rs)
      else ret ())"

definition deleteStep :: "SupabaseConfig \<Rightarrow> string \<Rightarrow> ChangeRecord list \<Rightarrow> unit io" where
  "deleteStep cfg tableName changes =
     (if deletes_of changes \<noteq> []
      then adapter_delete cfg tableName (deletes_of changes)
      else ret ())"

definition pushTableChanges :: "SupabaseConfig \<Rightarrow> string \<Rightarrow> ChangeRecord list \<Rightarrow> unit io" where
  "pushTableChanges cfg tableName changes =
     catch
       (bind (upsertStep cfg tableName changes) (\<lambda>_.
        bind (deleteStep cfg tableName changes) (\<lambda>_.
        bind getChangeTracker (\<lambda>_.
        markMultipleAsSynced (map change_id changes)))))
       (\<lambda>e. bind (consoleError ''[Localbase] Failed to sync table'') (\<lambda>_. throw e))"

text \<open>The \<open>Map\<close> from table name to the changes of that table, in first-seen order.\<close>

definition groupByTable :: "ChangeRecord list \<Rightarrow> (string \<times> ChangeRecord list) list" where
  "groupByTable pending =
     fold (\<lambda>change m.
             case map_of m (table change) of
               None \<Rightarrow> m @ [(table change, [change])]
             | Some cs \<Rightarrow> AList.update (table change) (cs @ [change]) m) pending []"

fun pushEach :: "SupabaseConfig \<Rightarrow> (string \<times> ChangeRecord list) list \<Rightarrow> unit io" where
  "pushEach cfg [] = ret ()"
| "pushEach cfg ((tableName, changes) # rest) =
     bind (pushTableChanges cfg tableName changes) (\<lambda>_. pushEach cfg rest)"

definition push :: "SupabaseConfig \<Rightarrow> unit io" where
  "push cfg =
     singleFlight
       (bind getChangeTracker (\<lambda>_.
        bind (getPendingChanges None) (\<lambda>pendingChanges.
        if pendingChanges = [] then ret ()
        else pushEach cfg (groupByTable pendingChanges))))"

text \<open>The body of the loop of \<open>pull\<close> over the records the remote backend returned.\<close>

definition pullRecord :: "SupabaseConfig \<Rightarrow> string \<Rightarrow> jsobj \<Rightarrow> unit io" where
  "pullRecord cfg localTable record =
     bind (Table_get localTable (getField record ''id'')) (\<lambda>loc.
     case loc of
       Some l \<Rightarrow>
         bind (detectConflict l record localTable (getField record ''id'')) (\<lambda>conflict.
         case conflict of
           Some c \<Rightarrow>
             bind (resolve c (case conflictResolution cfg of
                                Some strat \<Rightarrow> strat
                              | None \<Rightarrow> LastWriteWins)) (\<lambda>resolved.
             bind (Table_put localTable resolved Undefined) (\<lambda>_. ret ()))
         | None \<Rightarrow> bind (Table_put localTable record Undefined) (\<lambda>_. ret ()))
     | None \<Rightarrow> bind (Table_put localTable record Undefined) (\<lambda>_. ret ()))"

fun pullRecords :: "SupabaseConfig \<Rightarrow> string \<Rightarrow> jsobj list \<Rightarrow> unit io" where
  "pullRecords cfg localTable [] = ret ()"
| "pullRecords cfg localTable (record # rest) =
     bind (pullRecord cfg localTable record) (\<lambda>_. pullRecords cfg localTable rest)"

definition pendingCountFor :: "string \<Rightarrow> nat io" where
  "pendingCountFor localTable =
     bind (getPendingChanges None) (\<lambda>changes.
     ret (length (filter (\<lambda>c. table c = localTable) changes)))"

definition pullTable :: "SupabaseConfig \<Rightarrow> string \<Rightarrow> unit io" where
  "pullTable cfg localTable =
     catch
       (bind (getSyncMetadata localTable) (\<lambda>metadata.
        bind (adapter_pull cfg localTable (map_option lastSyncTimestamp metadata)) (\<lambda>remoteData.
        bind (db_table localTable) (\<lambda>_.
        bind (pullRecords cfg localTable remoteData) (\<lambda>_.
        bind dateNow (\<lambda>now.
        bind (pendingCountFor localTable) (\<lambda>n.
        setSyncMetadata \<lparr>meta_table = localTable, lastSyncTimestamp = now,
                         pendingChanges = n, syncStatus = Idle\<rparr>)))))))
       (\<lambda>e.
        bind (consoleError ''Failed to sync table'') (\<lambda>_.
        catch
          (bind (getSyncMetadata localTable) (\<lambda>metadata.
           bind (pendingCountFor localTable) (\<lambda>n.
           setSyncMetadata \<lparr>meta_table = localTable,
                            lastSyncTimestamp = (case metadata of
                                                   Some m \<Rightarrow> lastSyncTimestamp m
                                                 | None \<Rightarrow> 0),
                            pendingChanges = n, syncStatus = Error\<rparr>)))
          (\<lambda>metadataError. consoleError ''Failed to update sync metadata:'')))"

fun pullEach :: "SupabaseConfig \<Rightarrow> string list \<Rightarrow> unit io" where
  "pullEach cfg [] = ret ()"
| "pullEach cfg (localTable # rest) = bind (pullTable cfg localTable) (\<lambda>_. pullEach cfg rest)"

definition pull :: "SupabaseConfig \<Rightarrow> unit io" where
  "pull cfg =
     singleFlight
       (bind (\<lambda>s. if \<not> opened s then (Inl DatabaseNotOpen, s) else (Inr (), s)) (\<lambda>_.
        bind getChangeTracker (\<lambda>_.
        pullEach cfg (map fst (config_tables cfg)))))"

definition full :: "SupabaseConfig \<Rightarrow> unit io" where
  "full cfg = bind (pull cfg) (\<lambda>_. push cfg)"

text \<open>The body of the loop of \<open>pushAll\<close> over the configured tables.\<close>

fun uniqueById :: "jsobj list \<Rightarrow> (jsval \<times> jsobj) list \<Rightarrow> (jsval \<times> jsobj) list" where
  "uniqueById [] recordsMap = recordsMap"
| "uniqueById (r # rs) recordsMap =
     (if getField r ''id'' \<noteq> Undefined \<and> getField r ''id'' \<noteq> Null
      then uniqueById rs (AList.update (getField r ''id'') r recordsMap)
      else uniqueById rs recordsMap)"

definition pushAllTable :: "SupabaseConfig \<Rightarrow> string \<Rightarrow> unit io" where
  "pushAllTable cfg localTable =
     catch
       (bind (db_table localTable) (\<lambda>_.
        bind (Table_getAll localTable) (\<lambda>allRecords.
        if allRecords \<noteq> []
        then bind (adapter_push cfg localTable (map snd (uniqueById allRecords []))) (\<lambda>_.
             bind getChangeTracker (\<lambda>_.
             bind (getPendingChanges (Some localTable)) (\<lambda>pendingChanges.
             if pendingChanges \<noteq> []
             then markMultipleAsSynced (map change_id pendingChanges)
             else ret ())))
        else ret ())))
       (\<lambda>e. bind (consoleError ''[Localbase] Failed to push all data for table'') (\<lambda>_. throw e))"

fun pushAllEach :: "SupabaseConfig \<Rightarrow> string list \<Rightarrow> unit io" where
  "pushAllEach cfg [] = ret ()"
| "pushAllEach cfg (localTable # rest) =
     bind (pushAllTable cfg localTable) (\<lambda>_. pushAllEach cfg rest)"

definition pushAll :: "SupabaseConfig \<Rightarrow> unit io" where
  "pushAll cfg = singleFlight (pushAllEach cfg (map fst (config_tables cfg)))"


section \<open>Query\<close>







datatype WhereOperator = OpEq | OpGt | OpGe | OpLt | OpLe | OpNe | OpStartsWith | OpMatches

datatype WhereClause =
    Clause string WhereOperator jsval
  | Between string jsval jsval

datatype direction = Asc | Desc

record Query =
  storeName :: string
  indexName :: "string option"
  whereClauses :: "WhereClause list"
  filterPredicate :: "(jsobj \<Rightarrow> bool) option"
  sortField :: "string option"
  sortDirection :: direction
  limitCount :: "int option"
  offsetCount :: int



definition Query_filter :: "(jsobj \<Rightarrow> bool) \<Rightarrow> Query \<Rightarrow> Query" where
  "Query_filter predicate q = q\<lparr>filterPredicate := Some predicate\<rparr>"


















section \<open>Vocabulary of the properties\<close>

text \<open>The change log as a list (empty when the store does not exist) and its unsynced part.\<close>

definition changeLog :: "state \<Rightarrow> ChangeRecord list" where
  "changeLog s = (case changesStore s of None \<Rightarrow> [] | Some cs \<Rightarrow> cs)"

definition pendingOf :: "state \<Rightarrow> ChangeRecord list" where
  "pendingOf s = filter (\<lambda>c. \<not> synced c) (changeLog s)"

text \<open>
  \<open>logged t opn s s'\<close>: between \<open>s\<close> and \<open>s'\<close> the recorder was called once, for
  table \<open>t\<close> and operation \<open>opn\<close>, with the next id of the environment.
  \<open>freshIds s n\<close>: the next \<open>n\<close> ids the environment hands out are new to the log and
  differ from each other. \<open>appended t opn n s s'\<close>: the log of \<open>s'\<close> is the log of
  \<open>s\<close> and \<open>n\<close> more records, each unsynced, for table \<open>t\<close> and operation \<open>opn\<close>.
\<close>

definition logged :: "string \<Rightarrow> operation \<Rightarrow> state \<Rightarrow> state \<Rightarrow> bool" where
  "logged t opn s s' =
     (\<exists>c cs. changesStore s = Some cs \<and> changesStore s' = Some (changes_add c cs)
        \<and> change_id c = idSource s (ticks s) \<and> table c = t \<and> operation c = opn
        \<and> synced c = False
        \<and> ticks s' = Suc (ticks s) \<and> idSource s' = idSource s)"

definition freshIds :: "state \<Rightarrow> nat \<Rightarrow> bool" where
  "freshIds s n =
     (\<forall>i<n. idSource s (ticks s + i) \<notin> change_id ` set (changeLog s)
            \<and> (\<forall>j<i. idSource s (ticks s + j) \<noteq> idSource s (ticks s + i)))"

definition appended :: "string \<Rightarrow> operation \<Rightarrow> nat \<Rightarrow> state \<Rightarrow> state \<Rightarrow> bool" where
  "appended t opn n s s' =
     (\<exists>news. length news = n
        \<and> list_all (\<lambda>c. table c = t \<and> operation c = opn \<and> synced c = False) news
        \<and> mset (changeLog s') = mset (changeLog s) + mset news)"

text \<open>
  \<open>marked ids d d'\<close> relates a record of the log before and after a marking pass over
  \<open>ids\<close>: same id, never unsynced again, synced when its id is in \<open>ids\<close>, untouched
  otherwise. \<open>marks ids s s'\<close> lifts it to the logs of two states, row by row.
\<close>

definition marked :: "string set \<Rightarrow> ChangeRecord \<Rightarrow> ChangeRecord \<Rightarrow> bool" where
  "marked ids d d' =
     (change_id d' = change_id d \<and> (synced d \<longrightarrow> synced d')
      \<and> (change_id d \<in> ids \<longrightarrow> synced d') \<and> (change_id d \<notin> ids \<longrightarrow> d' = d))"

definition marks :: "string set \<Rightarrow> state \<Rightarrow> state \<Rightarrow> bool" where
  "marks ids s s' =
     (\<exists>cs cs'. changesStore s = Some cs \<and> changesStore s' = Some cs'
        \<and> list_all2 (marked ids) cs cs')"

text \<open>
  \<open>syncFrame\<close>: everything but the change log, the remote trace and the console is the
  same; \<open>untouched\<close>: the change log too.
\<close>

definition syncFrame :: "state \<Rightarrow> state \<Rightarrow> bool" where
  "syncFrame s s' =
     (opened s' = opened s \<and> tables s' = tables s \<and> metadataStore s' = metadataStore s
      \<and> changeQueue s' = changeQueue s \<and> isSyncing s' = isSyncing s \<and> ticks s' = ticks s
      \<and> idSource s' = idSource s \<and> clockSource s' = clockSource s
      \<and> dateParse s' = dateParse s \<and> backend s' = backend s)"

definition untouched :: "state \<Rightarrow> state \<Rightarrow> bool" where
  "untouched s s' = (syncFrame s s' \<and> changesStore s' = changesStore s)"

definition preserves :: "(state \<Rightarrow> state \<Rightarrow> bool) \<Rightarrow> 'a io \<Rightarrow> bool" where
  "preserves R m = (\<forall>s r s'. m s = (r, s') \<longrightarrow> R s s')"

text \<open>The requests \<open>pushTableChanges\<close> sends for a batch: at most one of each kind.\<close>

definition upsertCalls :: "SupabaseConfig \<Rightarrow> string \<Rightarrow> ChangeRecord list \<Rightarrow> remote_call list" where
  "upsertCalls cfg t b =
     (case recordsToPush b of
        Inr rs \<Rightarrow> if rs = [] then [] else [Upsert (getSupabaseTableName cfg t) rs]
      | Inl e \<Rightarrow> [])"

definition deleteCalls :: "SupabaseConfig \<Rightarrow> string \<Rightarrow> ChangeRecord list \<Rightarrow> remote_call list" where
  "deleteCalls cfg t b =
     (if deletes_of b = [] then [] else [DeleteIn (getSupabaseTableName cfg t) (deletes_of b)])"

section \<open>Example databases\<close>

definition todosStore :: objectStore where
  "todosStore = \<lparr>keyPath = Some ''id'', autoIncrement = True, keyGen = 1, rows = []\<rparr>"

definition exampleBackend :: "remote_call list \<Rightarrow> remote_call \<Rightarrow> remote_reply" where
  "exampleBackend calls c =
     (case c of
        SelectSince t ts \<Rightarrow>
          if t = ''todos'' then Reply [[(''id'', Num 7), (''title'', Str ''milk'')]] else Reply []
      | Upsert t rs \<Rightarrow> if t = ''todos'' then Failure ''offline'' else Reply []
      | DeleteIn t ks \<Rightarrow> Reply [])"

definition exampleState :: state where
  "exampleState =
     \<lparr>opened = True, tables = [(''todos'', todosStore), (''users'', todosStore)],
      changesStore = Some [], metadataStore = Some [], changeQueue = [], isSyncing = False,
      remoteCalls = [], consoleErrors = [], ticks = 0,
      idSource = (\<lambda>n. replicate (Suc n) CHR ''c''),
      clockSource = (\<lambda>n. 1700000000000 + int n),
      dateParse = (\<lambda>x. None), backend = exampleBackend\<rparr>"

definition exampleConfig :: SupabaseConfig where
  "exampleConfig =
     \<lparr>config_tables = [(''todos'', ''todos''), (''users'', ''users'')],
      conflictResolution = None\<rparr>"

definition busyState :: state where
  "busyState = exampleState\<lparr>isSyncing := True\<rparr>"

definition noLogState :: state where
  "noLogState = exampleState\<lparr>changesStore := None\<rparr>"

definition localTodo :: jsobj where
  "localTodo = [(''id'', Num 7), (''title'', Str ''tea''), (''updated_at'', Num 5000)]"

definition remoteNewer :: jsobj where
  "remoteNewer = [(''id'', Num 7), (''title'', Str ''milk''), (''updated_at'', Num 9000)]"

definition remoteClose :: jsobj where
  "remoteClose = [(''id'', Num 7), (''title'', Str ''milk''), (''updated_at'', Num 5400)]"

definition storedState :: state where
  "storedState =
     exampleState\<lparr>tables := [(''todos'', todosStore\<lparr>rows := [(Num 7, localTodo)]\<rparr>),
                             (''users'', todosStore)]\<rparr>"

subsection \<open>The query pipeline as the specification words it\<close>















definition johnItem :: jsobj where
  "johnItem = [(''name'', Str ''John''), (''email'', Str ''j@x.com'')]"

definition janeItem :: jsobj where
  "janeItem = [(''name'', Str ''Jane'')]"

definition usersPending :: state where
  "usersPending = snd (bulkAdd ''users'' [johnItem, janeItem] exampleState)"

subsection \<open>Deduplication by id\<close>

text \<open>
  \<open>idOf\<close> is the \<open>id\<close> property of a record and \<open>hasId\<close> says it is neither
  undefined nor null. \<open>lastWithId i rs\<close> is the last record of \<open>rs\<close> with id \<open>i\<close>,
  \<open>present\<close> keeps the data that is there, and \<open>keyed\<close> is the invariant of the
  deduplicating \<open>Map\<close>: distinct keys, each the id of its record.
\<close>

definition idOf :: "jsobj \<Rightarrow> jsval" where
  "idOf r = getField r ''id''"

definition hasId :: "jsobj \<Rightarrow> bool" where
  "hasId r = (idOf r \<noteq> Undefined \<and> idOf r \<noteq> Null)"

definition lastWithId :: "jsval \<Rightarrow> jsobj list \<Rightarrow> jsobj option" where
  "lastWithId i rs = find (\<lambda>r. idOf r = i) (rev rs)"

fun present :: "'a option list \<Rightarrow> 'a list" where
  "present [] = []"
| "present (None # xs) = present xs"
| "present (Some x # xs) = x # present xs"

definition keyed :: "(jsval \<times> jsobj) list \<Rightarrow> bool" where
  "keyed m = (distinct (map fst m) \<and> list_all (\<lambda>(k, r). k = idOf r \<and> hasId r) m)"

subsection \<open>More example databases\<close>

definition usersEdited :: state where
  "usersEdited =
     snd (Table_delete ''users'' (Num 2)
       (snd (Table_add ''users'' janeItem Undefined
         (snd (Table_update ''users'' (Num 1) janeItem
           (snd (Table_add ''users'' johnItem Undefined exampleState)))))))"


definition noIdState :: state where
  "noIdState = snd (Table_put ''users'' janeItem Undefined exampleState)"

definition notesState :: state where
  "notesState =
     snd (Table_put ''notes'' janeItem (Num 5)
       (exampleState\<lparr>tables := [(''notes'', \<lparr>keyPath = None, autoIncrement = False,
                                                keyGen = 1, rows = []\<rparr>)]\<rparr>))"

definition notesConfig :: SupabaseConfig where
  "notesConfig = \<lparr>config_tables = [(''notes'', ''notes'')], conflictResolution = None\<rparr>"

subsection \<open>Batches of a push\<close>

text \<open>\<open>batchIds\<close>: the ids of the change records in the batches of some tables.\<close>

definition batchIds :: "(string \<times> ChangeRecord list) list \<Rightarrow> string set" where
  "batchIds groups = change_id ` (\<Union>g\<in>set groups. set (snd g))"

definition twoTablesPending :: state where
  "twoTablesPending =
     snd (Table_add ''users'' janeItem Undefined
       (snd (Table_add ''todos'' johnItem Undefined exampleState)))"

definition usersThenTodos :: state where
  "usersThenTodos =
     snd (Table_add ''todos'' johnItem Undefined
       (snd (Table_add ''users'' janeItem Undefined exampleState)))"

definition usersChange :: ChangeRecord where
  "usersChange =
     \<lparr>change_id = ''c'', table = ''users'', key = Num 1, operation = Create,
      data = Some (janeItem @ [(''id'', Num 1)]), timestamp = 1700000000000, synced = False\<rparr>"

definition todosChange :: ChangeRecord where
  "todosChange =
     \<lparr>change_id = ''cc'', table = ''todos'', key = Num 1, operation = Create,
      data = Some (johnItem @ [(''id'', Num 1)]), timestamp = 1700000000001, synced = False\<rparr>"



section \<open>Verification\<close>

subsection \<open>Calls that return and calls that throw\<close>

lemma bind_Inr_iff:
  "bind m f s = (Inr b, s') \<longleftrightarrow> (\<exists>a s1. m s = (Inr a, s1) \<and> f a s1 = (Inr b, s'))"
  by (auto simp: bind_def split: prod.splits sum.splits)

lemma bind_Inl_iff:
  "bind m f s = (Inl e, s') \<longleftrightarrow>
     (m s = (Inl e, s') \<or> (\<exists>a s1. m s = (Inr a, s1) \<and> f a s1 = (Inl e, s')))"
  by (auto simp: bind_def split: prod.splits sum.splits)

lemma catch_Inr_iff:
  "catch m h s = (Inr a, s') \<longleftrightarrow>
     (m s = (Inr a, s') \<or> (\<exists>e s1. m s = (Inl e, s1) \<and> h e s1 = (Inr a, s')))"
  by (auto simp: catch_def split: prod.splits sum.splits)

lemma catch_Inl_iff:
  "catch m h s = (Inl e', s') \<longleftrightarrow> (\<exists>e s1. m s = (Inl e, s1) \<and> h e s1 = (Inl e', s'))"
  by (auto simp: catch_def split: prod.splits sum.splits)

lemma lift_Inr: "lift r s = (Inr a, s') \<longleftrightarrow> r = Inr a \<and> s' = s"
  by (auto simp: lift_def)

lemma ret_eq: "ret a s = (r, s') \<longleftrightarrow> r = Inr a \<and> s' = s"
  by (auto simp: ret_def)

lemma openStore_Inr: "openStore t s = (Inr st, s') \<Longrightarrow> s' = s \<and> opened s"
  by (auto simp: openStore_def split: if_splits option.splits)

lemma Table_get_state: "Table_get t k s = (r, s') \<Longrightarrow> s' = s"
  by (auto simp: Table_get_def bind_def openStore_def lift_def
      split: if_splits option.splits sum.splits)

subsection \<open>The single-flight guard\<close>

lemma singleFlight_busy: "isSyncing s \<Longrightarrow> singleFlight body s = (Inr (), s)"
  by (simp add: singleFlight_def)

text \<open>
  C7. While the engine's \<open>isSyncing\<close> flag is set, \<open>push\<close>, \<open>pull\<close>, \<open>full\<close> and
  \<open>pushAll\<close> return without an error and leave the whole state as it is: no request
  is added to the remote trace, no store is written, nothing is queued. (A call runs to
  its end here; for \<open>full\<close> the flag is the one both of its guards read.)
\<close>

theorem busy_engine_calls_are_noops:
  assumes "isSyncing s"
  shows "push cfg s = (Inr (), s) \<and> pull cfg s = (Inr (), s)
       \<and> full cfg s = (Inr (), s) \<and> pushAll cfg s = (Inr (), s)"
  using assms by (simp add: push_def pull_def full_def pushAll_def singleFlight_busy bind_def)

theorem busy_engine_calls_are_noops_witness:
  "push exampleConfig busyState = (Inr (), busyState)
   \<and> pull exampleConfig busyState = (Inr (), busyState)
   \<and> full exampleConfig busyState = (Inr (), busyState)
   \<and> pushAll exampleConfig busyState = (Inr (), busyState)"
proof -
  have "isSyncing busyState" by (simp add: busyState_def)
  then show ?thesis by (rule busy_engine_calls_are_noops)
qed

subsection \<open>ChangeTracker without its store\<close>

text \<open>
  C9, as the code has it. On a database without the \<open>_changes\<close> store,
  \<open>getPendingChanges\<close>, \<open>markAsSynced\<close> and \<open>markMultipleAsSynced\<close> throw the
  upgrade-required error and change nothing; \<open>clearSyncedChanges\<close> returns without
  doing anything and \<open>getChangesByTable\<close> returns the empty list.
\<close>

theorem changeTracker_without_store:
  assumes "changesStore s = None"
  shows "getPendingChanges tbl s = (Inl (UpgradeRequired ''_changes''), s)
       \<and> markAsSynced i s = (Inl (UpgradeRequired ''_changes''), s)
       \<and> markMultipleAsSynced ids s = (Inl (UpgradeRequired ''_changes''), s)
       \<and> clearSyncedChanges s = (Inr (), s)
       \<and> getChangesByTable t s = (Inr [], s)"
  using assms
  by (simp add: getPendingChanges_def markAsSynced_def markMultipleAsSynced_def
      clearSyncedChanges_def getChangesByTable_def)

theorem changeTracker_without_store_witness:
  "getPendingChanges None noLogState = (Inl (UpgradeRequired ''_changes''), noLogState)
   \<and> markAsSynced ''c'' noLogState = (Inl (UpgradeRequired ''_changes''), noLogState)
   \<and> markMultipleAsSynced [''c''] noLogState = (Inl (UpgradeRequired ''_changes''), noLogState)
   \<and> clearSyncedChanges noLogState = (Inr (), noLogState)
   \<and> getChangesByTable ''todos'' noLogState = (Inr [], noLogState)"
proof -
  have "changesStore noLogState = None" by (simp add: noLogState_def)
  then show ?thesis by (rule changeTracker_without_store)
qed

text \<open>
  The claim as stated fails: on the database \<open>noLogState\<close>, which has no \<open>_changes\<close>
  store, two of the five operations return normally.
\<close>

theorem changeTracker_silent_without_store:
  "changesStore noLogState = None
   \<and> fst (clearSyncedChanges noLogState) = Inr ()
   \<and> fst (getChangesByTable ''todos'' noLogState) = Inr []"
  by (simp add: noLogState_def clearSyncedChanges_def getChangesByTable_def)

subsection \<open>Conflict detection and last-write-wins\<close>

lemma detectConflict_eq:
  assumes "recordTimestamp l s = (Inr T1, s1)" and "recordTimestamp r s1 = (Inr T2, s2)"
  shows "detectConflict l r t k s =
     (Inr (if num_gt (abs_diff T1 T2) (Some conflictThreshold)
           then Some \<lparr>local = l, remote = r, conflict_table = t, conflict_key = k,
                      localTimestamp = T1, remoteTimestamp = T2\<rparr>
           else None), s2)"
  using assms by (simp add: detectConflict_def bind_def ret_def)

lemma num_gt_abs_diff:
  "num_gt (abs_diff T1 T2) (Some d) \<Longrightarrow> 0 \<le> d \<Longrightarrow> num_gt T2 T1 \<or> num_gt T1 T2"
  by (auto simp: num_gt_def abs_diff_def split: option.splits)

text \<open>
  C4. Let \<open>T1\<close> and \<open>T2\<close> be the timestamps \<open>detectConflict\<close> derives from the local
  and the remote record (\<open>updated_at\<close>, else \<open>created_at\<close>, else the current time).
  For numbers \<open>a\<close> and \<open>b\<close> the test of the code is \<open>|a - b| > 1000\<close>. When it
  holds, \<open>detectConflict\<close> returns the conflict of the two records with these
  timestamps, one timestamp is strictly larger than the other, \<open>last-write-wins\<close>
  resolves to the record with the larger one, and \<open>pull\<close> (under that strategy, also
  as the default) puts that record. When it does not hold, \<open>detectConflict\<close>
  returns null and \<open>pull\<close> puts the remote record.
\<close>

theorem conflict_threshold_and_last_write_wins:
  assumes "Table_get t (getField r ''id'') s = (Inr (Some l), s)"
      and "recordTimestamp l s = (Inr T1, s1)" and "recordTimestamp r s1 = (Inr T2, s2)"
  shows "(num_gt (abs_diff (Some a) (Some b)) (Some conflictThreshold) \<longleftrightarrow> \<bar>a - b\<bar> > 1000)
       \<and> (num_gt (abs_diff T1 T2) (Some conflictThreshold) \<longrightarrow>
            detectConflict l r t k s =
              (Inr (Some \<lparr>local = l, remote = r, conflict_table = t, conflict_key = k,
                           localTimestamp = T1, remoteTimestamp = T2\<rparr>), s2)
          \<and> resolve \<lparr>local = l, remote = r, conflict_table = t, conflict_key = k,
                      localTimestamp = T1, remoteTimestamp = T2\<rparr> LastWriteWins s2
              = (Inr (if num_gt T2 T1 then r else l), s2)
          \<and> (num_gt T2 T1 \<or> num_gt T1 T2)
          \<and> (conflictResolution cfg = None \<or> conflictResolution cfg = Some LastWriteWins \<longrightarrow>
               pullRecord cfg t r s
                 = bind (Table_put t (if num_gt T2 T1 then r else l) Undefined) (\<lambda>_. ret ()) s2))
       \<and> (\<not> num_gt (abs_diff T1 T2) (Some conflictThreshold) \<longrightarrow>
            detectConflict l r t k s = (Inr None, s2)
          \<and> pullRecord cfg t r s = bind (Table_put t r Undefined) (\<lambda>_. ret ()) s2)"
proof -
  have d: "detectConflict l r t (getField r ''id'') s =
     (Inr (if num_gt (abs_diff T1 T2) (Some conflictThreshold)
           then Some \<lparr>local = l, remote = r, conflict_table = t, conflict_key = getField r ''id'',
                      localTimestamp = T1, remoteTimestamp = T2\<rparr>
           else None), s2)"
    using assms(2,3) by (rule detectConflict_eq)
  have 1: "num_gt (abs_diff (Some a) (Some b)) (Some conflictThreshold) \<longleftrightarrow> \<bar>a - b\<bar> > 1000"
    by (simp add: num_gt_def abs_diff_def conflictThreshold_def)
  have 2: "num_gt (abs_diff T1 T2) (Some conflictThreshold) \<Longrightarrow> num_gt T2 T1 \<or> num_gt T1 T2"
    using num_gt_abs_diff[of T1 T2 conflictThreshold] by (simp add: conflictThreshold_def)
  have 3: "num_gt (abs_diff T1 T2) (Some conflictThreshold) \<Longrightarrow>
        conflictResolution cfg = None \<or> conflictResolution cfg = Some LastWriteWins \<Longrightarrow>
        pullRecord cfg t r s
          = bind (Table_put t (if num_gt T2 T1 then r else l) Undefined) (\<lambda>_. ret ()) s2"
    using assms(1) d by (auto simp: pullRecord_def bind_def resolve_def ret_def)
  have 4: "\<not> num_gt (abs_diff T1 T2) (Some conflictThreshold) \<Longrightarrow>
        pullRecord cfg t r s = bind (Table_put t r Undefined) (\<lambda>_. ret ()) s2"
    using assms(1) d by (simp add: pullRecord_def bind_def)
  show ?thesis
    using 1 2 3 4 detectConflict_eq[OF assms(2,3), of t k]
    by (simp add: resolve_def ret_def)
qed

theorem conflict_threshold_and_last_write_wins_witness:
  "detectConflict localTodo remoteNewer ''todos'' (Num 7) storedState
     = (Inr (Some \<lparr>local = localTodo, remote = remoteNewer, conflict_table = ''todos'',
                   conflict_key = Num 7, localTimestamp = Some 5000,
                   remoteTimestamp = Some 9000\<rparr>), storedState)
   \<and> pullRecord exampleConfig ''todos'' remoteNewer storedState
     = bind (Table_put ''todos'' remoteNewer Undefined) (\<lambda>_. ret ()) storedState
   \<and> detectConflict localTodo remoteClose ''todos'' (Num 7) storedState = (Inr None, storedState)
   \<and> pullRecord exampleConfig ''todos'' remoteClose storedState
     = bind (Table_put ''todos'' remoteClose Undefined) (\<lambda>_. ret ()) storedState"
proof -
  have g1: "Table_get ''todos'' (getField remoteNewer ''id'') storedState
            = (Inr (Some localTodo), storedState)"
    by (simp add: Table_get_def bind_def openStore_def storedState_def exampleState_def
        lift_def store_get_def remoteNewer_def getField_def todosStore_def)
  have g2: "Table_get ''todos'' (getField remoteClose ''id'') storedState
            = (Inr (Some localTodo), storedState)"
    by (simp add: Table_get_def bind_def openStore_def storedState_def exampleState_def
        lift_def store_get_def remoteClose_def getField_def todosStore_def)
  have tl: "recordTimestamp localTodo storedState = (Inr (Some 5000), storedState)"
    by (simp add: recordTimestamp_def localTodo_def getField_def getTime_def)
  have tn: "recordTimestamp remoteNewer storedState = (Inr (Some 9000), storedState)"
    by (simp add: recordTimestamp_def remoteNewer_def getField_def getTime_def)
  have tc: "recordTimestamp remoteClose storedState = (Inr (Some 5400), storedState)"
    by (simp add: recordTimestamp_def remoteClose_def getField_def getTime_def)
  have c: "conflictResolution exampleConfig = None" by (simp add: exampleConfig_def)
  have far: "num_gt (abs_diff (Some 5000) (Some 9000)) (Some conflictThreshold)"
    by (simp add: num_gt_def abs_diff_def conflictThreshold_def)
  have near: "\<not> num_gt (abs_diff (Some 5000) (Some 5400)) (Some conflictThreshold)"
    by (simp add: num_gt_def abs_diff_def conflictThreshold_def)
  have gt: "num_gt (Some 9000) (Some 5000)" by (simp add: num_gt_def)
  show ?thesis
    using conflict_threshold_and_last_write_wins[OF g1 tl tn, of 0 0 "Num 7" exampleConfig]
      conflict_threshold_and_last_write_wins[OF g2 tl tc, of 0 0 "Num 7" exampleConfig]
      c far near gt
    by simp
qed

subsection \<open>The query pipeline\<close>

















subsection \<open>Every mutation of a table is recorded once\<close>

lemma trackChange_logged:
  "trackChange t k opn d s = (Inr u, s') \<Longrightarrow> opened s \<Longrightarrow> logged t opn s s'"
  by (auto simp: trackChange_def logged_def Let_def split: if_splits option.splits)

lemma ret_Inr: "ret a s = (Inr b, s') \<longleftrightarrow> b = a \<and> s' = s"
  by (auto simp: ret_def)

lemma saveStore_frame:
  "saveStore t st s = (r, s') \<Longrightarrow> s' = s\<lparr>tables := tables s'\<rparr>"
  by (auto simp: saveStore_def)

lemma idbAdd_frame: "idbAdd t st v k s = (r, s') \<Longrightarrow> s' = s\<lparr>tables := tables s'\<rparr>"
  by (auto simp: idbAdd_def bind_def lift_def saveStore_def ret_def split: sum.splits prod.splits)

lemma idbPut_frame: "idbPut t st v k s = (r, s') \<Longrightarrow> s' = s\<lparr>tables := tables s'\<rparr>"
  by (auto simp: idbPut_def bind_def lift_def saveStore_def ret_def split: sum.splits prod.splits)

lemma logged_tables:
  "logged t opn (s\<lparr>tables := x\<rparr>) s' \<Longrightarrow> logged t opn s s'"
  by (simp add: logged_def)

lemma frame_opened: "s1 = s\<lparr>tables := x\<rparr> \<Longrightarrow> opened s1 = opened s"
  by simp

lemma Table_add_logged:
  assumes "Table_add t item k s = (Inr r, s')"
  shows "logged t Create s s'"
proof -
  from assms obtain st s0 res s1 kk dd where
    o: "openStore t s = (Inr st, s0)" and
    w: "(if k \<noteq> Undefined then bind (lift (serializeKey k)) (\<lambda>sk. idbAdd t st item sk)
           else idbAdd t st item Undefined) s0 = (Inr res, s1)" and
    tr: "trackChange t kk Create dd s1 = (Inr (), s')"
    unfolding Table_add_def bind_Inr_iff Let_def ret_Inr by auto
  have s0: "s0 = s" "opened s" using o openStore_Inr by blast+
  have f: "s1 = s\<lparr>tables := tables s1\<rparr>"
    using w unfolding s0 by (auto simp: bind_Inr_iff lift_Inr dest: idbAdd_frame split: if_splits)
  have "opened s1" using frame_opened[OF f] s0(2) by simp
  with tr have "logged t Create s1 s'" by (rule trackChange_logged)
  then show ?thesis using f logged_tables by metis
qed

lemma Table_put_logged:
  assumes "Table_put t item k s = (Inr r, s')"
  shows "logged t Update s s'"
proof -
  from assms obtain st s0 res s1 kk dd where
    o: "openStore t s = (Inr st, s0)" and
    w: "(if keyPath st \<noteq> None then idbPut t st item Undefined
           else if k \<noteq> Undefined \<and> k \<noteq> Null
           then bind (lift (serializeKey k)) (\<lambda>sk. idbPut t st item sk)
           else idbPut t st item Undefined) s0 = (Inr res, s1)" and
    tr: "trackChange t kk Update dd s1 = (Inr (), s')"
    unfolding Table_put_def bind_Inr_iff Let_def ret_Inr by auto
  have s0: "s0 = s" "opened s" using o openStore_Inr by blast+
  have f: "s1 = s\<lparr>tables := tables s1\<rparr>"
    using w unfolding s0 by (auto simp: bind_Inr_iff lift_Inr dest: idbPut_frame split: if_splits)
  have "opened s1" using frame_opened[OF f] s0(2) by simp
  with tr have "logged t Update s1 s'" by (rule trackChange_logged)
  then show ?thesis using f logged_tables by metis
qed

lemma Table_update_logged:
  assumes "Table_update t k changes s = (Inr r, s')"
  shows "logged t Update s s'"
proof -
  from assms obtain e s0 where g: "Table_get t k s = (Inr (Some e), s0)"
    and rest: "bind (openStore t) (\<lambda>st.
         let updated = spread e changes
         in if keyPath st \<noteq> None then Table_put t updated Undefined
            else Table_put t updated k) s0 = (Inr r, s')"
    unfolding Table_update_def bind_Inr_iff
    by (auto simp: throw_def bind_Inr_iff split: option.splits)
  have s0: "s0 = s" using g Table_get_state by blast
  from rest obtain st s1 where "openStore t s0 = (Inr st, s1)"
    and p: "(if keyPath st \<noteq> None then Table_put t (spread e changes) Undefined
            else Table_put t (spread e changes) k) s1 = (Inr r, s')"
    unfolding bind_Inr_iff Let_def by auto
  then have "s1 = s" using openStore_Inr s0 by blast
  with p show ?thesis by (auto dest: Table_put_logged split: if_splits)
qed

lemma Table_delete_logged:
  assumes "Table_delete t k s = (Inr r, s')"
  shows "logged t Delete s s'"
proof -
  from assms obtain st s0 sk s1 st' s2 s3 where
    o: "openStore t s = (Inr st, s0)" and
    a: "lift (serializeKey k) s0 = (Inr sk, s1)" and
    b: "lift (store_delete st sk) s1 = (Inr st', s2)" and
    c: "saveStore t st' s2 = (Inr (), s3)" and
    tr: "trackChange t k Delete None s3 = (Inr r, s')"
    unfolding Table_delete_def bind_Inr_iff by auto
  have s0: "s0 = s" "opened s" using o openStore_Inr by blast+
  have "s1 = s" "s2 = s" using a b s0 by (auto simp: lift_Inr)
  then have f: "s3 = s\<lparr>tables := tables s3\<rparr>" using c saveStore_frame by blast
  have "opened s3" using frame_opened[OF f] s0(2) by simp
  with tr have "logged t Delete s3 s'" by (rule trackChange_logged)
  then show ?thesis using f logged_tables by metis
qed

lemma mset_changes_insert: "mset (changes_insert c cs) = add_mset c (mset cs)"
  by (induction cs) auto

lemma set_changes_insert: "set (changes_insert c cs) = insert c (set cs)"
  by (induction cs) auto

lemma mset_changes_add:
  "change_id c \<notin> change_id ` set cs \<Longrightarrow> mset (changes_add c cs) = add_mset c (mset cs)"
  by (simp add: changes_add_def mset_changes_insert)

lemma logged_appended:
  assumes "logged t opn s s'" and "freshIds s 1"
  shows "appended t opn 1 s s'"
proof -
  from assms(1) obtain c cs where c: "changesStore s = Some cs"
    "changesStore s' = Some (changes_add c cs)" "change_id c = idSource s (ticks s)"
    "table c = t" "operation c = opn" "synced c = False"
    unfolding logged_def by blast
  have "change_id c \<notin> change_id ` set cs"
    using assms(2) c(1,3) by (simp add: freshIds_def changeLog_def)
  then have "mset (changeLog s') = mset (changeLog s) + mset [c]"
    using c(1,2) by (simp add: changeLog_def mset_changes_add)
  then show ?thesis
    unfolding appended_def using c(4-6) by (intro exI[of _ "[c]"]) simp
qed

lemma logged_fresh:
  assumes "logged t opn s s1" and "freshIds s (Suc n)"
  shows "freshIds s1 n"
proof -
  from assms(1) obtain c cs where c: "changesStore s = Some cs"
    "changesStore s1 = Some (changes_add c cs)" "change_id c = idSource s (ticks s)"
    "ticks s1 = Suc (ticks s)" "idSource s1 = idSource s"
    unfolding logged_def by blast
  have ids: "change_id ` set (changeLog s1) \<subseteq> insert (idSource s (ticks s)) (change_id ` set (changeLog s))"
    using c(1,2,3) by (auto simp: changeLog_def changes_add_def set_changes_insert split: if_splits)
  show ?thesis
    unfolding freshIds_def
  proof (intro allI impI conjI)
    fix i assume i: "i < n"
    from assms(2) i have a: "idSource s (ticks s + Suc i) \<notin> change_id ` set (changeLog s)"
      and b: "\<forall>j<Suc i. idSource s (ticks s + j) \<noteq> idSource s (ticks s + Suc i)"
      unfolding freshIds_def by auto
    from b have "idSource s (ticks s) \<noteq> idSource s (ticks s + Suc i)" by (metis add.right_neutral zero_less_Suc)
    with a ids show "idSource s1 (ticks s1 + i) \<notin> change_id ` set (changeLog s1)"
      using c(4,5) by auto
    fix j assume "j < i"
    then have "Suc j < Suc i" by simp
    with b show "idSource s1 (ticks s1 + j) \<noteq> idSource s1 (ticks s1 + i)"
      using c(4,5) by (metis add_Suc_shift)
  qed
qed

lemma appended_trans:
  "appended t opn 1 s s1 \<Longrightarrow> appended t opn n s1 s' \<Longrightarrow> appended t opn (Suc n) s s'"
  unfolding appended_def
  apply (elim exE conjE)
  subgoal for a b
    by (rule exI[of _ "a @ b"]) (simp add: ac_simps)
  done

lemma promiseAll_appended:
  assumes step: "\<And>x s r s'. f x s = (Inr r, s') \<Longrightarrow> logged t opn s s'"
  shows "promiseAll f items s = (Inr rs, s') \<Longrightarrow> freshIds s (length items)
         \<Longrightarrow> appended t opn (length items) s s'"
proof (induction items arbitrary: s rs s')
  case Nil
  then show ?case by (simp add: appended_def)
next
  case (Cons x xs)
  from Cons.prems(1) obtain a s1 as where
    x: "f x s = (Inr a, s1)" and r: "promiseAll f xs s1 = (Inr as, s')"
    by (auto split: prod.splits sum.splits)
  have l: "logged t opn s s1" using x by (rule step)
  have f1: "freshIds s 1" using Cons.prems(2) by (auto simp: freshIds_def)
  have "freshIds s1 (length xs)" using l Cons.prems(2) by (simp add: logged_fresh)
  with r have "appended t opn (length xs) s1 s'" by (rule Cons.IH)
  with logged_appended[OF l f1] show ?case by (simp add: appended_trans)
qed

subsection \<open>Marking records as synced\<close>

lemma markOne_marked: "list_all2 (marked {i}) cs (markOne i cs)"
proof (cases "changes_get cs i")
  case None
  then have "\<forall>d\<in>set cs. change_id d \<noteq> i"
    by (auto simp: changes_get_def find_None_iff)
  then have "list_all2 (marked {i}) cs cs"
    by (auto simp: list_all2_same marked_def)
  with None show ?thesis by (simp add: markOne_def)
next
  case (Some c)
  then have c: "c \<in> set cs" "change_id c = i"
    by (auto simp: changes_get_def find_Some_iff)
  then have "markOne i cs = map (\<lambda>d. if change_id d = i then c\<lparr>synced := True\<rparr> else d) cs"
    using Some by (auto simp: markOne_def changes_put_def)
  moreover have "list_all2 (marked {i}) cs (map (\<lambda>d. if change_id d = i then c\<lparr>synced := True\<rparr> else d) cs)"
    using c(2) by (auto simp: list_all2_map2 list_all2_same marked_def)
  ultimately show ?thesis by simp
qed

lemma marked_trans: "marked A a b \<Longrightarrow> marked B b c \<Longrightarrow> marked (A \<union> B) a c"
  by (auto simp: marked_def)

lemma fold_markOne_marked: "list_all2 (marked (set ids)) cs (fold markOne ids cs)"
proof (induction ids arbitrary: cs)
  case Nil
  then show ?case by (auto simp: list_all2_same marked_def)
next
  case (Cons i ids)
  have "list_all2 (marked ({i} \<union> set ids)) cs (fold markOne ids (markOne i cs))"
    using markOne_marked[of i cs] Cons.IH[of "markOne i cs"]
    by (rule list_all2_trans[rotated]) (rule marked_trans)
  then show ?case by simp
qed

subsection \<open>What \<open>pushTableChanges\<close> does\<close>

lemma recordsToPush_Nil: "creates_of b = [] \<Longrightarrow> updates_of b = [] \<Longrightarrow> recordsToPush b = Inr []"
  by (simp add: recordsToPush_def)

lemma adapter_push_result:
  "adapter_push cfg t rs s = (r, s') \<Longrightarrow>
   untouched s s'
   \<and> remoteCalls s' = remoteCalls s @ (if rs = [] then [] else [Upsert (getSupabaseTableName cfg t) rs])
   \<and> (r = Inr () \<longrightarrow> consoleErrors s' = consoleErrors s)"
  by (auto simp: adapter_push_def bind_def request_def consoleError_def throw_def ret_def
      syncFrame_def untouched_def split: if_splits remote_reply.splits)

lemma adapter_delete_result:
  "adapter_delete cfg t ks s = (r, s') \<Longrightarrow>
   untouched s s'
   \<and> remoteCalls s' = remoteCalls s @ (if ks = [] then [] else [DeleteIn (getSupabaseTableName cfg t) ks])
   \<and> consoleErrors s' = consoleErrors s"
  by (auto simp: adapter_delete_def bind_def request_def throw_def ret_def
      syncFrame_def untouched_def split: if_splits remote_reply.splits)

lemma markMultipleAsSynced_Inr:
  "markMultipleAsSynced ids s = (Inr u, s') \<Longrightarrow>
   syncFrame s s' \<and> marks (set ids) s s' \<and> remoteCalls s' = remoteCalls s
   \<and> consoleErrors s' = consoleErrors s"
  by (auto simp: markMultipleAsSynced_def bind_def changesTransaction_def syncFrame_def
      marks_def fold_markOne_marked split: if_splits option.splits)

lemma markMultipleAsSynced_Inl:
  "markMultipleAsSynced ids s = (Inl e, s') \<Longrightarrow> s' = s"
  by (auto simp: markMultipleAsSynced_def bind_def changesTransaction_def
      split: if_splits option.splits)

subsection \<open>Frames\<close>

lemma preservesD: "preserves R m \<Longrightarrow> m s = (r, s') \<Longrightarrow> R s s'"
  by (auto simp: preserves_def)

lemma preserves_bind:
  assumes "transp R" "preserves R m" "\<And>a. preserves R (f a)"
  shows "preserves R (bind m f)"
  unfolding preserves_def
proof (intro allI impI)
  fix s r s' assume b: "bind m f s = (r, s')"
  obtain r1 s1 where m: "m s = (r1, s1)" by (cases "m s")
  have R1: "R s s1" using assms(2) m by (rule preservesD)
  show "R s s'"
  proof (cases r1)
    case (Inl e)
    with b m show ?thesis using R1 by (simp add: bind_def)
  next
    case (Inr a)
    with b m have "f a s1 = (r, s')" by (simp add: bind_def)
    then have "R s1 s'" using assms(3) preservesD by blast
    with R1 show ?thesis using assms(1) by (blast dest: transpD)
  qed
qed

lemma preserves_catch:
  assumes "transp R" "preserves R m" "\<And>e. preserves R (h e)"
  shows "preserves R (catch m h)"
  unfolding preserves_def
proof (intro allI impI)
  fix s r s' assume b: "catch m h s = (r, s')"
  obtain r1 s1 where m: "m s = (r1, s1)" by (cases "m s")
  have R1: "R s s1" using assms(2) m by (rule preservesD)
  show "R s s'"
  proof (cases r1)
    case (Inr a)
    with b m show ?thesis using R1 by (simp add: catch_def)
  next
    case (Inl e)
    with b m have "h e s1 = (r, s')" by (simp add: catch_def)
    then have "R s1 s'" using assms(3) preservesD by blast
    with R1 show ?thesis using assms(1) by (blast dest: transpD)
  qed
qed

lemma preserves_ret: "reflp R \<Longrightarrow> preserves R (ret a)"
  by (auto simp: preserves_def ret_def dest: reflpD)

lemma preserves_throw: "reflp R \<Longrightarrow> preserves R (throw e)"
  by (auto simp: preserves_def throw_def dest: reflpD)

lemma preserves_lift: "reflp R \<Longrightarrow> preserves R (lift x)"
  by (auto simp: preserves_def lift_def dest: reflpD)

lemma preserves_if: "preserves R a \<Longrightarrow> preserves R b \<Longrightarrow> preserves R (if c then a else b)"
  by simp

lemma syncFrame_refl: "reflp syncFrame"
  by (auto simp: reflp_def syncFrame_def)

lemma syncFrame_trans: "transp syncFrame"
  by (auto simp: transp_def syncFrame_def)

lemma untouched_refl: "reflp untouched"
  by (auto simp: reflp_def syncFrame_def untouched_def)

lemma untouched_trans: "transp untouched"
  by (auto simp: transp_def syncFrame_def untouched_def)

lemma untouched_adapter_push: "preserves untouched (adapter_push cfg t rs)"
  by (auto simp: preserves_def dest: adapter_push_result)

lemma untouched_adapter_delete: "preserves untouched (adapter_delete cfg t rs)"
  by (auto simp: preserves_def dest: adapter_delete_result)

lemma untouched_consoleError: "preserves untouched (consoleError m)"
  by (auto simp: preserves_def consoleError_def untouched_def syncFrame_def)

lemma untouched_getChangeTracker: "preserves untouched getChangeTracker"
  by (auto simp: preserves_def getChangeTracker_def untouched_def syncFrame_def)

lemma syncFrame_markMultiple: "preserves syncFrame (markMultipleAsSynced ids)"
  unfolding preserves_def
  by (auto simp: markMultipleAsSynced_def bind_def changesTransaction_def syncFrame_def
      split: if_splits option.splits)

lemma untouched_syncFrame: "preserves untouched m \<Longrightarrow> preserves syncFrame m"
  by (auto simp: preserves_def untouched_def)

lemmas frame_intros = preserves_bind preserves_catch preserves_ret preserves_throw preserves_lift
  preserves_if

lemma upsertStep_result:
  assumes "upsertStep cfg t b s = (r, s')"
  shows "untouched s s' \<and> remoteCalls s' = remoteCalls s @ upsertCalls cfg t b
       \<and> (r = Inr () \<longrightarrow> consoleErrors s' = consoleErrors s)"
proof (cases "creates_of b \<noteq> [] \<or> updates_of b \<noteq> []")
  case False
  then have "recordsToPush b = Inr []" by (simp add: recordsToPush_Nil)
  with False assms show ?thesis
    using untouched_refl by (auto simp: upsertStep_def ret_eq upsertCalls_def dest: reflpD)
next
  case True
  show ?thesis
  proof (cases "recordsToPush b")
    case (Inl e)
    with True assms show ?thesis
      using untouched_refl by (auto simp: upsertStep_def bind_def lift_def upsertCalls_def dest: reflpD)
  next
    case (Inr rs)
    with True assms have "adapter_push cfg t rs s = (r, s')"
      by (simp add: upsertStep_def bind_def lift_def)
    from adapter_push_result[OF this] Inr show ?thesis by (simp add: upsertCalls_def)
  qed
qed

lemma deleteStep_result:
  assumes "deleteStep cfg t b s = (r, s')"
  shows "untouched s s' \<and> remoteCalls s' = remoteCalls s @ deleteCalls cfg t b
       \<and> consoleErrors s' = consoleErrors s"
proof (cases "deletes_of b \<noteq> []")
  case False
  with assms show ?thesis
    using untouched_refl by (auto simp: deleteStep_def ret_eq deleteCalls_def dest: reflpD)
next
  case True
  with assms have "adapter_delete cfg t (deletes_of b) s = (r, s')" by (simp add: deleteStep_def)
  from adapter_delete_result[OF this] True show ?thesis by (simp add: deleteCalls_def)
qed

lemma untouched_upsertStep: "preserves untouched (upsertStep cfg t b)"
  by (auto simp: preserves_def dest: upsertStep_result)

lemma untouched_deleteStep: "preserves untouched (deleteStep cfg t b)"
  by (auto simp: preserves_def dest: deleteStep_result)

lemma pushTableChanges_frame: "preserves syncFrame (pushTableChanges cfg t b)"
  unfolding pushTableChanges_def
  by (intro frame_intros syncFrame_trans syncFrame_refl syncFrame_markMultiple
      untouched_syncFrame[OF untouched_upsertStep] untouched_syncFrame[OF untouched_deleteStep]
      untouched_syncFrame[OF untouched_consoleError] untouched_syncFrame[OF untouched_getChangeTracker])

lemma untouched_marks: "untouched s s1 \<Longrightarrow> marks ids s1 s' \<Longrightarrow> marks ids s s'"
  by (simp add: untouched_def marks_def)

lemma getChangeTracker_eq: "getChangeTracker s = (r, s') \<Longrightarrow> s' = s \<and> (r = Inr () \<longleftrightarrow> opened s)"
  by (auto simp: getChangeTracker_def split: if_splits)

lemma pushTableChanges_Inr:
  assumes "pushTableChanges cfg t b s = (Inr u, s')"
  shows "marks (change_id ` set b) s s' \<and> opened s
       \<and> remoteCalls s' = remoteCalls s @ upsertCalls cfg t b @ deleteCalls cfg t b
       \<and> consoleErrors s' = consoleErrors s"
proof -
  from assms obtain s1 s2 s3 where
    a: "upsertStep cfg t b s = (Inr (), s1)" and
    b: "deleteStep cfg t b s1 = (Inr (), s2)" and
    c: "getChangeTracker s2 = (Inr (), s3)" and
    d: "markMultipleAsSynced (map change_id b) s3 = (Inr u, s')"
    unfolding pushTableChanges_def catch_Inr_iff bind_Inr_iff
    by (auto simp: bind_def consoleError_def throw_def)
  note A = upsertStep_result[OF a] and B = deleteStep_result[OF b]
    and C = getChangeTracker_eq[OF c] and D = markMultipleAsSynced_Inr[OF d]
  have u: "untouched s s3" using A B C untouched_trans by (auto dest: transpD)
  have "marks (change_id ` set b) s s'" using u D untouched_marks by auto
  moreover have "opened s" using u C by (simp add: untouched_def syncFrame_def)
  ultimately show ?thesis using A B C D by simp
qed

lemma mark_tail_Inl:
  assumes "bind getChangeTracker (\<lambda>_. markMultipleAsSynced ids) s = (Inl e, s')"
  shows "s' = s"
  using assms unfolding bind_Inl_iff
  by (auto dest: getChangeTracker_eq markMultipleAsSynced_Inl)

lemma delete_tail_Inl:
  assumes "bind (deleteStep cfg t b) (\<lambda>_. bind getChangeTracker (\<lambda>_. markMultipleAsSynced ids)) s
           = (Inl e, s')"
  shows "untouched s s'"
  using assms unfolding bind_Inl_iff[of "deleteStep cfg t b"]
proof (elim disjE exE conjE)
  assume "deleteStep cfg t b s = (Inl e, s')"
  then show ?thesis using deleteStep_result by blast
next
  fix a s1
  assume "deleteStep cfg t b s = (Inr a, s1)"
    and "bind getChangeTracker (\<lambda>_. markMultipleAsSynced ids) s1 = (Inl e, s')"
  then show ?thesis using deleteStep_result mark_tail_Inl by blast
qed

lemma upsert_tail_Inl:
  assumes "bind (upsertStep cfg t b) (\<lambda>_. bind (deleteStep cfg t b)
             (\<lambda>_. bind getChangeTracker (\<lambda>_. markMultipleAsSynced ids))) s = (Inl e, s')"
  shows "untouched s s'"
  using assms unfolding bind_Inl_iff[of "upsertStep cfg t b"]
proof (elim disjE exE conjE)
  assume "upsertStep cfg t b s = (Inl e, s')"
  then show ?thesis using upsertStep_result by blast
next
  fix a s1
  assume "upsertStep cfg t b s = (Inr a, s1)"
    and "bind (deleteStep cfg t b) (\<lambda>_. bind getChangeTracker (\<lambda>_. markMultipleAsSynced ids)) s1
         = (Inl e, s')"
  then have "untouched s s1" "untouched s1 s'"
    using upsertStep_result delete_tail_Inl by blast+
  then show ?thesis using untouched_trans by (blast dest: transpD)
qed

lemma pushTableChanges_Inl:
  assumes "pushTableChanges cfg t b s = (Inl e, s')"
  shows "changesStore s' = changesStore s
       \<and> consoleErrors s' \<noteq> [] \<and> last (consoleErrors s') = ''[Localbase] Failed to sync table''"
proof -
  from assms obtain e0 s1 where
    body: "bind (upsertStep cfg t b) (\<lambda>_. bind (deleteStep cfg t b) (\<lambda>_.
            bind getChangeTracker (\<lambda>_. markMultipleAsSynced (map change_id b)))) s = (Inl e0, s1)"
    and h: "s' = s1\<lparr>consoleErrors := consoleErrors s1 @ [''[Localbase] Failed to sync table'']\<rparr>"
    unfolding pushTableChanges_def catch_Inl_iff
    by (auto simp: bind_def[of "consoleError _"] consoleError_def throw_def)
  have "untouched s s1" using body by (rule upsert_tail_Inl)
  with h show ?thesis by (simp add: untouched_def)
qed

subsection \<open>The change log after a mutation and after a push\<close>

lemma marks_synced:
  assumes "marks ids s s'"
  shows "map change_id (changeLog s') = map change_id (changeLog s)
       \<and> list_all (\<lambda>c'. change_id c' \<in> ids \<longrightarrow> synced c') (changeLog s')
       \<and> list_all2 (\<lambda>c c'. synced c \<longrightarrow> synced c') (changeLog s) (changeLog s')"
proof -
  from assms obtain cs cs' where cs: "changesStore s = Some cs" "changesStore s' = Some cs'"
    and l: "list_all2 (marked ids) cs cs'"
    unfolding marks_def by blast
  from l have "map change_id cs' = map change_id cs
       \<and> list_all (\<lambda>c'. change_id c' \<in> ids \<longrightarrow> synced c') cs'
       \<and> list_all2 (\<lambda>c c'. synced c \<longrightarrow> synced c') cs cs'"
    by (induction rule: list_all2_induct) (auto simp: marked_def)
  then show ?thesis using cs by (simp add: changeLog_def)
qed

text \<open>
  C1. A successful \<open>add\<close>, \<open>put\<close>, \<open>update\<close> or \<open>delete\<close> on a table appends
  exactly one record to the change log: unsynced, for that table, with operation
  \<open>create\<close>, \<open>update\<close>, \<open>update\<close> and \<open>delete\<close> respectively; a successful bulk
  call appends one such record per element. The change id comes from the clock and the
  random generator, and \<open>freshIds\<close> says that the ids about to be handed out are new
  (an id that is already a key of the store would make the recorder's unawaited
  \<open>store.add\<close> fail). After \<open>pushTableChanges\<close> returns for a batch, the log has the
  same ids as before and every record whose id is in the batch has \<open>synced = true\<close>.
\<close>

theorem every_mutation_recorded_once:
  "(Table_add t item k s = (Inr r, s') \<and> freshIds s 1 \<longrightarrow> appended t Create 1 s s')
   \<and> (Table_put t item k s = (Inr r, s') \<and> freshIds s 1 \<longrightarrow> appended t Update 1 s s')
   \<and> (Table_update t k changes s = (Inr r, s') \<and> freshIds s 1 \<longrightarrow> appended t Update 1 s s')
   \<and> (Table_delete t k s = (Inr u, s') \<and> freshIds s 1 \<longrightarrow> appended t Delete 1 s s')
   \<and> (bulkAdd t items s = (Inr rs, s') \<and> freshIds s (length items) \<longrightarrow>
        appended t Create (length items) s s')
   \<and> (bulkPut t items s = (Inr rs, s') \<and> freshIds s (length items) \<longrightarrow>
        appended t Update (length items) s s')
   \<and> (bulkDelete t keys s = (Inr us, s') \<and> freshIds s (length keys) \<longrightarrow>
        appended t Delete (length keys) s s')
   \<and> (pushTableChanges cfg t batch s = (Inr u, s') \<longrightarrow>
        map change_id (changeLog s') = map change_id (changeLog s)
        \<and> list_all (\<lambda>c'. change_id c' \<in> change_id ` set batch \<longrightarrow> synced c') (changeLog s'))"
proof (intro conjI impI)
  assume "Table_add t item k s = (Inr r, s') \<and> freshIds s 1"
  then show "appended t Create 1 s s'" using Table_add_logged logged_appended by blast
next
  assume "Table_put t item k s = (Inr r, s') \<and> freshIds s 1"
  then show "appended t Update 1 s s'" using Table_put_logged logged_appended by blast
next
  assume "Table_update t k changes s = (Inr r, s') \<and> freshIds s 1"
  then show "appended t Update 1 s s'" using Table_update_logged logged_appended by blast
next
  assume "Table_delete t k s = (Inr u, s') \<and> freshIds s 1"
  then show "appended t Delete 1 s s'" using Table_delete_logged logged_appended by blast
next
  assume "bulkAdd t items s = (Inr rs, s') \<and> freshIds s (length items)"
  then show "appended t Create (length items) s s'"
    unfolding bulkAdd_def using promiseAll_appended[of "\<lambda>item. Table_add t item Undefined" t Create]
      Table_add_logged by blast
next
  assume "bulkPut t items s = (Inr rs, s') \<and> freshIds s (length items)"
  then show "appended t Update (length items) s s'"
    unfolding bulkPut_def using promiseAll_appended[of "\<lambda>item. Table_put t item Undefined" t Update]
      Table_put_logged by blast
next
  assume "bulkDelete t keys s = (Inr us, s') \<and> freshIds s (length keys)"
  then show "appended t Delete (length keys) s s'"
    unfolding bulkDelete_def using promiseAll_appended[of "\<lambda>k. Table_delete t k" t Delete]
      Table_delete_logged by blast
next
  assume a: "pushTableChanges cfg t batch s = (Inr u, s')"
  then have m: "marks (change_id ` set batch) s s'" using pushTableChanges_Inr by blast
  show "map change_id (changeLog s') = map change_id (changeLog s)"
    using marks_synced[OF m] by simp
  show "list_all (\<lambda>c'. change_id c' \<in> change_id ` set batch \<longrightarrow> synced c') (changeLog s')"
    using marks_synced[OF m] by simp
qed

lemma witness_pair: "fst x = a \<Longrightarrow> x = (a, snd x)"
  by (cases x) simp

lemma all_marked_synced:
  assumes "map change_id l' = map change_id l"
      and "list_all (\<lambda>c'. change_id c' \<in> change_id ` set b \<longrightarrow> synced c') l'"
      and "set l \<subseteq> set b"
  shows "list_all synced l'"
proof -
  have "change_id ` set l' = change_id ` set l" using assms(1) by (metis set_map)
  then have "\<forall>c'\<in>set l'. change_id c' \<in> change_id ` set b" using assms(3) by blast
  with assms(2) show ?thesis by (auto simp: list_all_iff)
qed

theorem every_mutation_recorded_once_witness:
  "appended ''todos'' Create 1 exampleState
     (snd (Table_add ''todos'' johnItem Undefined exampleState))
   \<and> appended ''todos'' Update 1 exampleState
     (snd (Table_put ''todos'' remoteNewer Undefined exampleState))
   \<and> appended ''todos'' Update 1 storedState
     (snd (Table_update ''todos'' (Num 7) janeItem storedState))
   \<and> appended ''todos'' Delete 1 storedState (snd (Table_delete ''todos'' (Num 7) storedState))
   \<and> appended ''users'' Create (length [johnItem, janeItem]) exampleState
     (snd (bulkAdd ''users'' [johnItem, janeItem] exampleState))
   \<and> appended ''users'' Update (length [remoteNewer, remoteClose]) exampleState
     (snd (bulkPut ''users'' [remoteNewer, remoteClose] exampleState))
   \<and> appended ''users'' Delete (length [Num 1, Num 2 :: jsval]) exampleState
     (snd (bulkDelete ''users'' [Num 1, Num 2] exampleState))
   \<and> list_all synced
     (changeLog (snd (pushTableChanges exampleConfig ''users'' (pendingOf usersPending)
                        usersPending)))"
proof -
  have f1: "freshIds exampleState 1" "freshIds storedState 1"
    by (simp_all add: freshIds_def changeLog_def exampleState_def storedState_def)
  have f2: "freshIds exampleState (length [johnItem, janeItem])"
    "freshIds exampleState (length [remoteNewer, remoteClose])"
    "freshIds exampleState (length [Num 1, Num 2 :: jsval])"
    by (simp_all add: freshIds_def changeLog_def exampleState_def less_Suc_eq)
  have a: "Table_add ''todos'' johnItem Undefined exampleState
           = (Inr (Num 1), snd (Table_add ''todos'' johnItem Undefined exampleState))"
    by (rule witness_pair) code_simp
  have p: "Table_put ''todos'' remoteNewer Undefined exampleState
           = (Inr (Num 7), snd (Table_put ''todos'' remoteNewer Undefined exampleState))"
    by (rule witness_pair) code_simp
  have u: "Table_update ''todos'' (Num 7) janeItem storedState
           = (Inr (Num 7), snd (Table_update ''todos'' (Num 7) janeItem storedState))"
    by (rule witness_pair) code_simp
  have d: "Table_delete ''todos'' (Num 7) storedState
           = (Inr (), snd (Table_delete ''todos'' (Num 7) storedState))"
    by (rule witness_pair) code_simp
  have ba: "bulkAdd ''users'' [johnItem, janeItem] exampleState
           = (Inr [Num 1, Num 2], snd (bulkAdd ''users'' [johnItem, janeItem] exampleState))"
    by (rule witness_pair) code_simp
  have bp: "bulkPut ''users'' [remoteNewer, remoteClose] exampleState
           = (Inr [Num 7, Num 7], snd (bulkPut ''users'' [remoteNewer, remoteClose] exampleState))"
    by (rule witness_pair) code_simp
  have bd: "bulkDelete ''users'' [Num 1, Num 2] exampleState
           = (Inr [(), ()], snd (bulkDelete ''users'' [Num 1, Num 2] exampleState))"
    by (rule witness_pair) code_simp
  have ps: "pushTableChanges exampleConfig ''users'' (pendingOf usersPending) usersPending
           = (Inr (), snd (pushTableChanges exampleConfig ''users'' (pendingOf usersPending)
                             usersPending))"
    by (rule witness_pair) code_simp
  have sub: "set (changeLog usersPending) \<subseteq> set (pendingOf usersPending)"
    by code_simp
  note T1 = every_mutation_recorded_once[of "''todos''" johnItem Undefined exampleState "Num 1"
      "snd (Table_add ''todos'' johnItem Undefined exampleState)"]
  note T2 = every_mutation_recorded_once[of "''todos''" remoteNewer Undefined exampleState "Num 7"
      "snd (Table_put ''todos'' remoteNewer Undefined exampleState)"]
  note T3 = every_mutation_recorded_once[of "''todos''" _ "Num 7" storedState "Num 7"
      "snd (Table_update ''todos'' (Num 7) janeItem storedState)" janeItem]
  note T4 = every_mutation_recorded_once[of "''todos''" _ "Num 7" storedState _
      "snd (Table_delete ''todos'' (Num 7) storedState)" _ "()"]
  note T5 = every_mutation_recorded_once[of "''users''" _ _ exampleState _
      "snd (bulkAdd ''users'' [johnItem, janeItem] exampleState)" _ _ "[johnItem, janeItem]"
      "[Num 1, Num 2]"]
  note T6 = every_mutation_recorded_once[of "''users''" _ _ exampleState _
      "snd (bulkPut ''users'' [remoteNewer, remoteClose] exampleState)" _ _
      "[remoteNewer, remoteClose]" "[Num 7, Num 7]"]
  note T7 = every_mutation_recorded_once[of "''users''" _ _ exampleState _
      "snd (bulkDelete ''users'' [Num 1, Num 2] exampleState)" _ _ _ _
      "[Num 1, Num 2]" "[(), ()]"]
  note T8 = every_mutation_recorded_once[of "''users''" _ _ usersPending _
      "snd (pushTableChanges exampleConfig ''users'' (pendingOf usersPending) usersPending)"
      _ "()" _ _ _ _ exampleConfig "pendingOf usersPending"]
  have c1: "appended ''todos'' Create 1 exampleState
     (snd (Table_add ''todos'' johnItem Undefined exampleState))"
    using T1 a f1 by blast
  have c2: "appended ''todos'' Update 1 exampleState
     (snd (Table_put ''todos'' remoteNewer Undefined exampleState))"
    using T2 p f1 by blast
  have c3: "appended ''todos'' Update 1 storedState
     (snd (Table_update ''todos'' (Num 7) janeItem storedState))"
    using T3 u f1 by blast
  have c4: "appended ''todos'' Delete 1 storedState (snd (Table_delete ''todos'' (Num 7) storedState))"
    using T4 d f1 by blast
  have c5: "appended ''users'' Create (length [johnItem, janeItem]) exampleState
     (snd (bulkAdd ''users'' [johnItem, janeItem] exampleState))"
    using T5 ba f2 by blast
  have c6: "appended ''users'' Update (length [remoteNewer, remoteClose]) exampleState
     (snd (bulkPut ''users'' [remoteNewer, remoteClose] exampleState))"
    using T6 bp f2 by blast
  have c7: "appended ''users'' Delete (length [Num 1, Num 2 :: jsval]) exampleState
     (snd (bulkDelete ''users'' [Num 1, Num 2] exampleState))"
    using T7 bd f2 by blast
  have c8: "list_all synced
     (changeLog (snd (pushTableChanges exampleConfig ''users'' (pendingOf usersPending)
                        usersPending)))"
    using T8 ps sub all_marked_synced by blast
  show ?thesis using c1 c2 c3 c4 c5 c6 c7 c8 by blast
qed

subsection \<open>Deduplication and delivery of a batch\<close>

lemma find_append:
  "find P (xs @ ys) = (case find P xs of None \<Rightarrow> find P ys | Some x \<Rightarrow> Some x)"
  by (induction xs) auto

lemma set_update_subset: "set (AList.update k v al) \<subseteq> insert (k, v) (set al)"
  by (induction al) auto

lemma lastWithId_Cons:
  "lastWithId i (r # rs) =
     (case lastWithId i rs of Some x \<Rightarrow> Some x | None \<Rightarrow> if idOf r = i then Some r else None)"
  by (simp add: lastWithId_def find_append split: option.splits)

lemma keyed_update: "keyed m \<Longrightarrow> hasId r \<Longrightarrow> keyed (AList.update (idOf r) r m)"
  using set_update_subset[of "idOf r" r m]
  by (auto simp: keyed_def distinct_update list_all_iff)

lemma dedupById_Some:
  "dedupById (Some r # rs) m =
     (if hasId r then dedupById rs (AList.update (idOf r) r m) else dedupById rs m)"
  by (simp add: hasId_def idOf_def)

lemma dedupById_Inr:
  assumes "dedupById rs m = Inr m'" and "keyed m"
  shows "keyed m' \<and> rs = map Some (present rs)
       \<and> (\<forall>i. map_of m' i = (case lastWithId i (filter hasId (present rs)) of
                                Some r \<Rightarrow> Some r | None \<Rightarrow> map_of m i))"
  using assms
proof (induction rs arbitrary: m)
  case Nil
  then show ?case by (simp add: lastWithId_def)
next
  case (Cons x rs)
  show ?case
  proof (cases x)
    case None
    with Cons.prems show ?thesis by simp
  next
    case (Some r)
    show ?thesis
    proof (cases "hasId r")
      case True
      then have d: "dedupById rs (AList.update (idOf r) r m) = Inr m'"
        using Cons.prems(1) Some by (simp only: dedupById_Some if_True)
      have k: "keyed (AList.update (idOf r) r m)"
        using Cons.prems(2) True by (rule keyed_update)
      from Cons.IH[OF d k] have IH: "keyed m'" "rs = map Some (present rs)"
        "\<And>i. map_of m' i = (case lastWithId i (filter hasId (present rs)) of
              Some y \<Rightarrow> Some y | None \<Rightarrow> map_of (AList.update (idOf r) r m) i)"
        by simp_all
      have "map_of m' i = (case lastWithId i (filter hasId (present (x # rs))) of
                                Some y \<Rightarrow> Some y | None \<Rightarrow> map_of m i)" for i
        using IH(3)[of i] True Some
        by (simp add: lastWithId_Cons update_conv' split: option.splits)
      then show ?thesis using IH(1,2) Some by simp
    next
      case False
      then have d: "dedupById rs m = Inr m'"
        using Cons.prems(1) Some by (simp only: dedupById_Some if_False)
      from Cons.IH[OF d Cons.prems(2)] show ?thesis using False Some by simp
    qed
  qed
qed

lemma keyed_find:
  "keyed m \<Longrightarrow> find (\<lambda>r. idOf r = i) (map snd m) = map_of m i"
  by (induction m) (auto simp: keyed_def)

lemma keyed_ids: "keyed m \<Longrightarrow> map idOf (map snd m) = map fst m"
  by (induction m) (auto simp: keyed_def)

lemma recordsToPush_Inr:
  assumes "recordsToPush b = Inr rs"
  shows "distinct (map idOf rs) \<and> list_all hasId rs
       \<and> creates_of b = map Some (present (creates_of b))
       \<and> updates_of b = map Some (present (updates_of b))
       \<and> (\<forall>i. find (\<lambda>r. idOf r = i) rs =
                (case lastWithId i (filter hasId (present (updates_of b))) of
                   Some u \<Rightarrow> Some u
                 | None \<Rightarrow> lastWithId i (filter hasId (present (creates_of b)))))"
proof -
  from assms obtain m m' where c: "dedupById (creates_of b) [] = Inr m"
    and u: "dedupById (updates_of b) m = Inr m'" and rs: "rs = map snd m'"
    by (auto simp: recordsToPush_def split: sum.splits)
  have k0: "keyed []" by (simp add: keyed_def)
  note C = dedupById_Inr[OF c k0]
  then have km: "keyed m" by simp
  note U = dedupById_Inr[OF u km]
  then have km': "keyed m'" by simp
  have "distinct (map idOf rs)" using km' keyed_ids[OF km'] rs by (simp add: keyed_def del: map_map)
  moreover have "list_all hasId rs" using km' rs by (auto simp: keyed_def list_all_iff)
  moreover have "\<forall>i. find (\<lambda>r. idOf r = i) rs =
                (case lastWithId i (filter hasId (present (updates_of b))) of
                   Some u \<Rightarrow> Some u
                 | None \<Rightarrow> lastWithId i (filter hasId (present (creates_of b))))"
    using C U keyed_find[OF km'] rs by (auto split: option.splits)
  ultimately show ?thesis using C U by simp
qed









subsection \<open>Records without an id\<close>

lemma uniqueById_keyed: "keyed m \<Longrightarrow> keyed (uniqueById rs m)"
proof (induction rs arbitrary: m)
  case Nil
  then show ?case by simp
next
  case (Cons r rs)
  show ?case
  proof (cases "hasId r")
    case True
    then have "uniqueById (r # rs) m = uniqueById rs (AList.update (idOf r) r m)"
      by (simp add: hasId_def idOf_def)
    then show ?thesis using Cons.IH[OF keyed_update[OF Cons.prems True]] by simp
  next
    case False
    then have "uniqueById (r # rs) m = uniqueById rs m"
      by (auto simp: hasId_def idOf_def)
    then show ?thesis using Cons.IH[OF Cons.prems] by simp
  qed
qed

lemma uniqueById_hasId: "list_all hasId (map snd (uniqueById rs []))"
proof -
  have "keyed (uniqueById rs [])" by (rule uniqueById_keyed) (simp add: keyed_def)
  then show ?thesis by (auto simp: keyed_def list_all_iff)
qed

lemma getPendingChanges_Inr:
  assumes "getPendingChanges tbl s = (Inr p, s')"
  shows "s' = s \<and> opened s
       \<and> p = (case tbl of None \<Rightarrow> pendingOf s
              | Some t \<Rightarrow> if t \<noteq> [] then filter (\<lambda>c. table c = t) (pendingOf s) else pendingOf s)"
  using assms
  by (auto simp: getPendingChanges_def bind_def changesTransaction_def ret_def pendingOf_def
      changeLog_def Let_def split: if_splits option.splits)

lemma db_table_eq: "db_table t s = (r, s') \<Longrightarrow> s' = s"
  by (auto simp: db_table_def split: if_splits)

lemma Table_getAll_state: "Table_getAll t s = (r, s') \<Longrightarrow> s' = s"
  by (auto simp: Table_getAll_def bind_def openStore_def ret_def split: if_splits option.splits)

lemma marks_table_synced:
  assumes m: "marks (change_id ` set p) s s'"
      and p: "\<forall>c\<in>set (pendingOf s). table c = t \<longrightarrow> c \<in> set p"
  shows "list_all (\<lambda>c'. table c' = t \<longrightarrow> synced c') (changeLog s')"
proof -
  from m obtain cs cs' where cs: "changesStore s = Some cs" "changesStore s' = Some cs'"
    and l: "list_all2 (marked (change_id ` set p)) cs cs'"
    unfolding marks_def by blast
  have "\<forall>c\<in>set cs. \<not> synced c \<longrightarrow> table c = t \<longrightarrow> c \<in> set p"
    using p cs(1) by (simp add: pendingOf_def changeLog_def)
  with l have "list_all (\<lambda>c'. table c' = t \<longrightarrow> synced c') cs'"
  proof (induction rule: list_all2_induct)
    case Nil
    then show ?case by simp
  next
    case (Cons c cs c' cs')
    have "table c' = t \<longrightarrow> synced c'"
    proof (cases "change_id c \<in> change_id ` set p")
      case True
      then show ?thesis using Cons.hyps(1) by (simp add: marked_def)
    next
      case False
      then have e: "c' = c" using Cons.hyps(1) by (simp add: marked_def)
      have "c \<notin> set p" using False by blast
      then show ?thesis using Cons.prems e by auto
    qed
    then show ?case using Cons by simp
  qed
  then show ?thesis using cs(2) by (simp add: changeLog_def)
qed

lemma pushAllTable_Inr:
  assumes a: "pushAllTable cfg t s = (Inr u, s')"
      and g: "Table_getAll t s = (Inr allRecords, s)" and ne: "allRecords \<noteq> []"
  shows "remoteCalls s' = remoteCalls s @
           (if map snd (uniqueById allRecords []) = [] then []
            else [Upsert (getSupabaseTableName cfg t) (map snd (uniqueById allRecords []))])
       \<and> list_all (\<lambda>c'. table c' = t \<longrightarrow> synced c') (changeLog s')"
proof -
  let ?u = "map snd (uniqueById allRecords [])"
  from a have body: "bind (db_table t) (\<lambda>_.
        bind (Table_getAll t) (\<lambda>allRecords.
        if allRecords \<noteq> []
        then bind (adapter_push cfg t (map snd (uniqueById allRecords []))) (\<lambda>_.
             bind getChangeTracker (\<lambda>_.
             bind (getPendingChanges (Some t)) (\<lambda>pendingChanges.
             if pendingChanges \<noteq> []
             then markMultipleAsSynced (map change_id pendingChanges)
             else ret ())))
        else ret ())) s = (Inr u, s')"
    unfolding pushAllTable_def catch_Inr_iff
    by (auto simp: bind_def[of "consoleError _"] consoleError_def throw_def)
  then obtain s0 where d: "db_table t s = (Inr (), s0)"
    and r0: "bind (Table_getAll t) (\<lambda>allRecords.
        if allRecords \<noteq> []
        then bind (adapter_push cfg t (map snd (uniqueById allRecords []))) (\<lambda>_.
             bind getChangeTracker (\<lambda>_.
             bind (getPendingChanges (Some t)) (\<lambda>pendingChanges.
             if pendingChanges \<noteq> []
             then markMultipleAsSynced (map change_id pendingChanges)
             else ret ())))
        else ret ()) s0 = (Inr u, s')"
    unfolding bind_Inr_iff[of "db_table t"] by auto
  have s0: "s0 = s" using d db_table_eq by blast
  from r0 g ne have r1: "bind (adapter_push cfg t ?u) (\<lambda>_.
             bind getChangeTracker (\<lambda>_.
             bind (getPendingChanges (Some t)) (\<lambda>pendingChanges.
             if pendingChanges \<noteq> []
             then markMultipleAsSynced (map change_id pendingChanges)
             else ret ()))) s = (Inr u, s')"
    unfolding s0 by (simp add: bind_def[of "Table_getAll t"])
  then obtain s1 s2 p s3 where
    ap: "adapter_push cfg t ?u s = (Inr (), s1)" and
    gc: "getChangeTracker s1 = (Inr (), s2)" and
    gp: "getPendingChanges (Some t) s2 = (Inr p, s3)" and
    mk: "(if p \<noteq> [] then markMultipleAsSynced (map change_id p) else ret ()) s3 = (Inr u, s')"
    unfolding bind_Inr_iff by auto
  note AP = adapter_push_result[OF ap]
  have s2: "s2 = s1" using gc getChangeTracker_eq by blast
  note GP = getPendingChanges_Inr[OF gp]
  then have s3: "s3 = s1" using s2 by simp
  have pend: "\<forall>c\<in>set (pendingOf s1). table c = t \<longrightarrow> c \<in> set p"
    using GP s2 by (auto split: if_splits)
  have calls: "remoteCalls s1 = remoteCalls s @
           (if ?u = [] then [] else [Upsert (getSupabaseTableName cfg t) ?u])"
    using AP by simp
  show ?thesis
  proof (cases "p = []")
    case True
    then have "s' = s1" using mk s3 by (simp add: ret_def)
    moreover have "list_all (\<lambda>c'. table c' = t \<longrightarrow> synced c') (changeLog s1)"
      using pend True by (auto simp: pendingOf_def list_all_iff)
    ultimately show ?thesis using calls by simp
  next
    case False
    then have "markMultipleAsSynced (map change_id p) s1 = (Inr u, s')" using mk s3 by simp
    from markMultipleAsSynced_Inr[OF this]
    have m: "marks (change_id ` set p) s1 s'" and rc: "remoteCalls s' = remoteCalls s1"
      by simp_all
    from marks_table_synced[OF m pend] rc calls show ?thesis by simp
  qed
qed

text \<open>
  C10. In \<open>pushTableChanges\<close> (the per-table step of \<open>push\<close>) a change whose data has
  no id is in no upsert request, and once the call returns the change is marked synced
  all the same. In the per-table step of \<open>pushAll\<close> a record of the table without an
  id is left out of the upsert, and once the step returns every change of that table is
  synced.
\<close>

theorem records_without_id_dropped_but_synced:
  "(pushTableChanges cfg t b s = (Inr u, s') \<and> c \<in> set b \<and> data c = Some r \<and> \<not> hasId r \<longrightarrow>
      remoteCalls s' = remoteCalls s @ upsertCalls cfg t b @ deleteCalls cfg t b
      \<and> list_all (\<lambda>call. case call of Upsert n rs \<Rightarrow> r \<notin> set rs | _ \<Rightarrow> True)
           (upsertCalls cfg t b @ deleteCalls cfg t b)
      \<and> list_all (\<lambda>c'. change_id c' = change_id c \<longrightarrow> synced c') (changeLog s'))
   \<and> (pushAllTable cfg t s = (Inr u, s') \<and> Table_getAll t s = (Inr allRecords, s)
       \<and> r \<in> set allRecords \<and> \<not> hasId r \<longrightarrow>
      remoteCalls s' = remoteCalls s @
           (if map snd (uniqueById allRecords []) = [] then []
            else [Upsert (getSupabaseTableName cfg t) (map snd (uniqueById allRecords []))])
      \<and> r \<notin> set (map snd (uniqueById allRecords []))
      \<and> list_all (\<lambda>c'. table c' = t \<longrightarrow> synced c') (changeLog s'))"
proof (intro conjI impI)
  assume h: "pushTableChanges cfg t b s = (Inr u, s') \<and> c \<in> set b \<and> data c = Some r \<and> \<not> hasId r"
  then have a: "pushTableChanges cfg t b s = (Inr u, s')" and c: "c \<in> set b" and r: "\<not> hasId r"
    by simp_all
  note I = pushTableChanges_Inr[OF a]
  show "remoteCalls s' = remoteCalls s @ upsertCalls cfg t b @ deleteCalls cfg t b"
    using I by simp
  have "\<And>rs. recordsToPush b = Inr rs \<Longrightarrow> r \<notin> set rs"
    using recordsToPush_Inr r by (auto simp: list_all_iff)
  then show "list_all (\<lambda>call. case call of Upsert n rs \<Rightarrow> r \<notin> set rs | _ \<Rightarrow> True)
           (upsertCalls cfg t b @ deleteCalls cfg t b)"
    by (auto simp: upsertCalls_def deleteCalls_def split: sum.splits)
  have m: "marks (change_id ` set b) s s'" using I by simp
  have "list_all (\<lambda>c'. change_id c' \<in> change_id ` set b \<longrightarrow> synced c') (changeLog s')"
    using marks_synced[OF m] by simp
  then show "list_all (\<lambda>c'. change_id c' = change_id c \<longrightarrow> synced c') (changeLog s')"
    using c by (auto simp: list_all_iff)
next
  assume h: "pushAllTable cfg t s = (Inr u, s') \<and> Table_getAll t s = (Inr allRecords, s)
       \<and> r \<in> set allRecords \<and> \<not> hasId r"
  then have a: "pushAllTable cfg t s = (Inr u, s')"
    and g: "Table_getAll t s = (Inr allRecords, s)" and ne: "allRecords \<noteq> []"
    and r: "\<not> hasId r"
    by auto
  note P = pushAllTable_Inr[OF a g ne]
  show "remoteCalls s' = remoteCalls s @
           (if map snd (uniqueById allRecords []) = [] then []
            else [Upsert (getSupabaseTableName cfg t) (map snd (uniqueById allRecords []))])"
    using P by simp
  show "r \<notin> set (map snd (uniqueById allRecords []))"
    using uniqueById_hasId[of allRecords] r by (auto simp: list_all_iff)
  show "list_all (\<lambda>c'. table c' = t \<longrightarrow> synced c') (changeLog s')"
    using P by simp
qed


theorem records_without_id_dropped_but_synced_witness:
  "remoteCalls (snd (pushTableChanges exampleConfig ''users'' (pendingOf noIdState) noIdState))
     = remoteCalls noIdState
   \<and> list_all (\<lambda>c'. change_id c' = ''c'' \<longrightarrow> synced c')
        (changeLog (snd (pushTableChanges exampleConfig ''users'' (pendingOf noIdState)
                           noIdState)))
   \<and> remoteCalls (snd (pushAllTable notesConfig ''notes'' notesState)) = remoteCalls notesState
   \<and> janeItem \<notin> set (map snd (uniqueById [janeItem] []))
   \<and> list_all (\<lambda>c'. table c' = ''notes'' \<longrightarrow> synced c')
        (changeLog (snd (pushAllTable notesConfig ''notes'' notesState)))"
proof -
  let ?c = "\<lparr>change_id = ''c'', table = ''users'', key = Undefined, operation = Update,
             data = Some janeItem, timestamp = 1700000000000, synced = False\<rparr>"
  have ok: "pushTableChanges exampleConfig ''users'' (pendingOf noIdState) noIdState
            = (Inr (), snd (pushTableChanges exampleConfig ''users'' (pendingOf noIdState)
                              noIdState))"
    by (rule witness_pair) code_simp
  have c: "?c \<in> set (pendingOf noIdState)" by code_simp
  have d: "data ?c = Some janeItem" "change_id ?c = ''c''" by simp_all
  have n: "\<not> hasId janeItem" by code_simp
  have uc: "upsertCalls exampleConfig ''users'' (pendingOf noIdState) = []" by code_simp
  have dc: "deleteCalls exampleConfig ''users'' (pendingOf noIdState) = []" by code_simp
  have pa: "pushAllTable notesConfig ''notes'' notesState
            = (Inr (), snd (pushAllTable notesConfig ''notes'' notesState))"
    by (rule witness_pair) code_simp
  have ga: "Table_getAll ''notes'' notesState = (Inr [janeItem], notesState)"
    by (simp add: Table_getAll_def bind_def openStore_def ret_def store_getAll_def
        notesState_def Table_put_def idbPut_def store_write_def store_commit_def saveStore_def
        lift_def trackChange_def exampleState_def Let_def)
  have un: "map snd (uniqueById [janeItem] []) = []" by code_simp
  note T1 = records_without_id_dropped_but_synced[where cfg = exampleConfig and t = "''users''"
      and b = "pendingOf noIdState" and s = noIdState and u = "()" and c = ?c and r = janeItem
      and s' = "snd (pushTableChanges exampleConfig ''users'' (pendingOf noIdState) noIdState)"]
  note T2 = records_without_id_dropped_but_synced[where cfg = notesConfig and t = "''notes''"
      and s = notesState and u = "()" and r = janeItem and allRecords = "[janeItem]"
      and s' = "snd (pushAllTable notesConfig ''notes'' notesState)"]
  have c1: "remoteCalls (snd (pushTableChanges exampleConfig ''users'' (pendingOf noIdState)
                                noIdState)) = remoteCalls noIdState"
    using T1 ok c d n uc dc by simp
  have c2: "list_all (\<lambda>c'. change_id c' = ''c'' \<longrightarrow> synced c')
        (changeLog (snd (pushTableChanges exampleConfig ''users'' (pendingOf noIdState)
                           noIdState)))"
    using T1 ok c d n by simp
  have c3: "remoteCalls (snd (pushAllTable notesConfig ''notes'' notesState))
            = remoteCalls notesState"
    using T2 pa ga n un by simp
  have c4: "janeItem \<notin> set (map snd (uniqueById [janeItem] []))"
    using T2 pa ga n by simp
  have c5: "list_all (\<lambda>c'. table c' = ''notes'' \<longrightarrow> synced c')
        (changeLog (snd (pushAllTable notesConfig ''notes'' notesState)))"
    using T2 pa ga n by simp
  show ?thesis using c1 c2 c3 c4 c5 by blast
qed

subsection \<open>Pushing the batches of all tables\<close>

lemma update_members:
  "map_of m k = Some cs \<Longrightarrow>
   (\<Union>g\<in>set (AList.update k (cs @ [c]) m). set (snd g)) = insert c (\<Union>g\<in>set m. set (snd g))"
proof (induction m)
  case Nil
  then show ?case by simp
next
  case (Cons p m)
  show ?case
  proof (cases "fst p = k")
    case True
    then have "snd p = cs" using Cons.prems by (cases p) simp
    then show ?thesis using True by (cases p) auto
  next
    case False
    then have "map_of m k = Some cs" using Cons.prems by (cases p) auto
    from Cons.IH[OF this] False show ?thesis by (cases p) auto
  qed
qed

lemma group_fold_members:
  "(\<Union>g\<in>set (fold (\<lambda>change m.
             case map_of m (table change) of
               None \<Rightarrow> m @ [(table change, [change])]
             | Some cs \<Rightarrow> AList.update (table change) (cs @ [change]) m) pending m0). set (snd g))
   = set pending \<union> (\<Union>g\<in>set m0. set (snd g))"
proof (induction pending arbitrary: m0)
  case Nil
  then show ?case by simp
next
  case (Cons c pending)
  show ?case
  proof (cases "map_of m0 (table c)")
    case None
    then show ?thesis using Cons.IH[of "m0 @ [(table c, [c])]"] by auto
  next
    case (Some cs)
    then show ?thesis
      using Cons.IH[of "AList.update (table c) (cs @ [c]) m0"] update_members[OF Some, of c]
      by auto
  qed
qed

lemma groupByTable_members: "(\<Union>g\<in>set (groupByTable pending). set (snd g)) = set pending"
  using group_fold_members[of pending "[]"] by (simp add: groupByTable_def)

lemma groupByTable_Nil: "groupByTable pending = [] \<longleftrightarrow> pending = []"
proof
  assume "groupByTable pending = []"
  then have "(\<Union>g\<in>set (groupByTable pending). set (snd g)) = {}" by simp
  then show "pending = []" using groupByTable_members by simp
next
  assume "pending = []"
  then show "groupByTable pending = []" by (simp add: groupByTable_def)
qed

lemma marks_trans: "marks A s s1 \<Longrightarrow> marks B s1 s' \<Longrightarrow> marks (A \<union> B) s s'"
  unfolding marks_def
  apply (elim exE conjE)
  subgoal for cs cs1 cs1' cs'
    apply (rule exI[of _ cs], rule exI[of _ cs'])
    apply simp
    apply (erule list_all2_trans[rotated])
     apply assumption
    apply (erule (1) marked_trans)
    done
  done

lemma marks_refl: "changesStore s = Some cs \<Longrightarrow> marks {} s s"
  by (auto simp: marks_def marked_def list_all2_same)

lemma marks_store: "marks A s s' \<Longrightarrow> changesStore s' \<noteq> None"
  by (auto simp: marks_def)

lemma pushEach_Inr:
  assumes "pushEach cfg groups s = (Inr u, s')" and "changesStore s \<noteq> None"
  shows "marks (batchIds groups) s s' \<and> syncFrame s s'"
  using assms
proof (induction groups arbitrary: s)
  case Nil
  then show ?case
    using syncFrame_refl by (auto simp: ret_def batchIds_def marks_refl dest: reflpD)
next
  case (Cons g groups)
  obtain t b where g: "g = (t, b)" by (cases g)
  from Cons.prems(1) obtain s1 where
    p: "pushTableChanges cfg t b s = (Inr (), s1)" and r: "pushEach cfg groups s1 = (Inr u, s')"
    unfolding g by (auto simp: bind_Inr_iff)
  have m: "marks (change_id ` set b) s s1" using pushTableChanges_Inr[OF p] by simp
  have f: "syncFrame s s1" using pushTableChanges_frame p by (rule preservesD)
  from Cons.IH[OF r marks_store[OF m]]
  have "marks (batchIds groups) s1 s'" "syncFrame s1 s'" by simp_all
  with m f show ?case
    using marks_trans[of "change_id ` set b" s s1 "batchIds groups" s'] syncFrame_trans
    by (auto simp: g batchIds_def image_Un dest: transpD)
qed

lemma marks_all_synced:
  assumes "marks ids s s'" and "change_id ` set (pendingOf s) \<subseteq> ids"
  shows "pendingOf s' = []"
proof -
  from assms(1) obtain cs cs' where cs: "changesStore s = Some cs" "changesStore s' = Some cs'"
    and l: "list_all2 (marked ids) cs cs'"
    unfolding marks_def by blast
  have "\<forall>c\<in>set cs. \<not> synced c \<longrightarrow> change_id c \<in> ids"
    using assms(2) cs(1) by (auto simp: pendingOf_def changeLog_def)
  with l have "list_all synced cs'"
    by (induction rule: list_all2_induct) (auto simp: marked_def)
  then show ?thesis using cs(2) by (simp add: pendingOf_def changeLog_def list_all_iff)
qed

lemma getPendingChanges_ok:
  "opened s \<Longrightarrow> changesStore s = Some cs \<Longrightarrow> getPendingChanges None s = (Inr (pendingOf s), s)"
  by (simp add: getPendingChanges_def bind_def changesTransaction_def ret_def pendingOf_def
      changeLog_def)

lemma flag_reset: "\<not> isSyncing s \<Longrightarrow> s\<lparr>isSyncing := True\<rparr>\<lparr>isSyncing := False\<rparr> = s"
  by simp

lemma pendingOf_flag: "pendingOf (s\<lparr>isSyncing := b\<rparr>) = pendingOf s"
  by (simp add: pendingOf_def changeLog_def)

lemma push_idle_no_pending:
  assumes "\<not> isSyncing s" and "opened s" and "changesStore s = Some cs" and "pendingOf s = []"
  shows "push cfg s = (Inr (), s)"
proof -
  let ?s0 = "s\<lparr>isSyncing := True\<rparr>"
  have "getPendingChanges None ?s0 = (Inr (pendingOf ?s0), ?s0)"
    using assms(2,3) by (intro getPendingChanges_ok) simp_all
  then have "bind getChangeTracker (\<lambda>_. bind (getPendingChanges None) (\<lambda>pendingChanges.
        if pendingChanges = [] then ret ()
        else pushEach cfg (groupByTable pendingChanges))) ?s0 = (Inr (), ?s0)"
    using assms(2,4) by (simp add: bind_def getChangeTracker_def pendingOf_flag ret_def)
  then show ?thesis using assms(1) by (simp add: push_def singleFlight_def)
qed

lemma push_Inr_cases:
  assumes "push cfg s = (Inr u, s')" and "\<not> isSyncing s"
  shows "\<not> isSyncing s' \<and> opened s' \<and> changesStore s' \<noteq> None \<and> pendingOf s' = []"
proof -
  let ?s0 = "s\<lparr>isSyncing := True\<rparr>"
  from assms obtain s1 where
    body: "bind getChangeTracker (\<lambda>_. bind (getPendingChanges None) (\<lambda>pendingChanges.
        if pendingChanges = [] then ret ()
        else pushEach cfg (groupByTable pendingChanges))) ?s0 = (Inr u, s1)"
    and s': "s' = s1\<lparr>isSyncing := False\<rparr>"
    by (auto simp: push_def singleFlight_def split: prod.splits)
  from body obtain sa p sb where
    gc: "getChangeTracker ?s0 = (Inr (), sa)" and
    gp: "getPendingChanges None sa = (Inr p, sb)" and
    rest: "(if p = [] then ret () else pushEach cfg (groupByTable p)) sb = (Inr u, s1)"
    unfolding bind_Inr_iff by auto
  have sa: "sa = ?s0" "opened ?s0" using getChangeTracker_eq[OF gc] by simp_all
  note GP = getPendingChanges_Inr[OF gp]
  then have sb: "sb = ?s0" and p: "p = pendingOf ?s0" using sa by simp_all
  have st: "changesStore ?s0 \<noteq> None"
    using gp sa by (auto simp: getPendingChanges_def split: if_splits)
  show ?thesis
  proof (cases "p = []")
    case True
    then have "s1 = ?s0" using rest sb by (simp add: ret_def)
    then show ?thesis using s' sa st True p by (simp add: pendingOf_flag)
  next
    case False
    then have pe: "pushEach cfg (groupByTable p) ?s0 = (Inr u, s1)" using rest sb by simp
    note PE = pushEach_Inr[OF pe st]
    have "change_id ` set (pendingOf ?s0) \<subseteq> batchIds (groupByTable p)"
      using groupByTable_members[of p] p by (simp add: batchIds_def)
    with PE have "pendingOf s1 = []" using marks_all_synced by blast
    moreover have "opened s1" using PE sa by (simp add: syncFrame_def)
    moreover have "changesStore s1 \<noteq> None" using PE marks_store by blast
    ultimately show ?thesis using s' by (simp add: pendingOf_flag)
  qed
qed

text \<open>
  C6. After \<open>push\<close> has returned, a second \<open>push\<close> on the state it left returns
  that state unchanged: no request is added to the remote trace. When the first call
  ran (the flag was not set), the pending-change query on the state it left is empty.
\<close>

theorem push_twice_is_idle:
  assumes "push cfg s = (Inr u, s')"
  shows "push cfg s' = (Inr (), s')
       \<and> (\<not> isSyncing s \<longrightarrow> getPendingChanges None s' = (Inr [], s'))"
proof (cases "isSyncing s")
  case True
  then have "s' = s" using assms by (simp add: push_def singleFlight_def)
  then show ?thesis using True by (simp add: push_def singleFlight_def)
next
  case False
  note P = push_Inr_cases[OF assms False]
  then obtain cs where cs: "changesStore s' = Some cs" by auto
  have "push cfg s' = (Inr (), s')" using P cs by (intro push_idle_no_pending) simp_all
  moreover have "getPendingChanges None s' = (Inr [], s')"
    using getPendingChanges_ok[of s' cs] P cs by simp
  ultimately show ?thesis by simp
qed

theorem push_twice_is_idle_witness:
  "push exampleConfig (snd (push exampleConfig usersEdited))
     = (Inr (), snd (push exampleConfig usersEdited))
   \<and> getPendingChanges None (snd (push exampleConfig usersEdited))
     = (Inr [], snd (push exampleConfig usersEdited))"
proof -
  have p: "push exampleConfig usersEdited = (Inr (), snd (push exampleConfig usersEdited))"
    by (rule witness_pair) code_simp
  have i: "\<not> isSyncing usersEdited" by code_simp
  show ?thesis using push_twice_is_idle[OF p] i by simp
qed

lemma pushEach_append:
  "pushEach cfg (xs @ ys) s = bind (pushEach cfg xs) (\<lambda>_. pushEach cfg ys) s"
proof (induction xs arbitrary: s)
  case Nil
  then show ?case by (simp add: bind_def ret_def)
next
  case (Cons g xs)
  obtain t b where g: "g = (t, b)" by (cases g)
  show ?case
    unfolding g using Cons.IH
    by (simp add: bind_def split: prod.splits sum.splits)
qed

lemma pushTableChanges_Inl_calls:
  assumes "pushTableChanges cfg t b s = (Inl e, s')"
  shows "remoteCalls s' = remoteCalls s @ upsertCalls cfg t b
       \<or> remoteCalls s' = remoteCalls s @ upsertCalls cfg t b @ deleteCalls cfg t b"
proof -
  from assms obtain e0 s1 where
    body: "bind (upsertStep cfg t b) (\<lambda>_. bind (deleteStep cfg t b) (\<lambda>_.
            bind getChangeTracker (\<lambda>_. markMultipleAsSynced (map change_id b)))) s = (Inl e0, s1)"
    and h: "s' = s1\<lparr>consoleErrors := consoleErrors s1 @ [''[Localbase] Failed to sync table'']\<rparr>"
    unfolding pushTableChanges_def catch_Inl_iff
    by (auto simp: bind_def[of "consoleError _"] consoleError_def throw_def)
  have "remoteCalls s1 = remoteCalls s @ upsertCalls cfg t b
       \<or> remoteCalls s1 = remoteCalls s @ upsertCalls cfg t b @ deleteCalls cfg t b"
    using body unfolding bind_Inl_iff[of "upsertStep cfg t b"]
  proof (elim disjE exE conjE)
    assume "upsertStep cfg t b s = (Inl e0, s1)"
    then show ?thesis using upsertStep_result by blast
  next
    fix a sa
    assume u: "upsertStep cfg t b s = (Inr a, sa)"
      and r: "bind (deleteStep cfg t b) (\<lambda>_. bind getChangeTracker
                (\<lambda>_. markMultipleAsSynced (map change_id b))) sa = (Inl e0, s1)"
    have ua: "remoteCalls sa = remoteCalls s @ upsertCalls cfg t b"
      using upsertStep_result[OF u] by simp
    from r show ?thesis unfolding bind_Inl_iff[of "deleteStep cfg t b"]
    proof (elim disjE exE conjE)
      assume "deleteStep cfg t b sa = (Inl e0, s1)"
      then show ?thesis using deleteStep_result ua by fastforce
    next
      fix a' sb
      assume d: "deleteStep cfg t b sa = (Inr a', sb)"
        and m: "bind getChangeTracker (\<lambda>_. markMultipleAsSynced (map change_id b)) sb
                = (Inl e0, s1)"
      have "s1 = sb" using m by (rule mark_tail_Inl)
      then show ?thesis using deleteStep_result[OF d] ua by simp
    qed
  qed
  then show ?thesis using h by simp
qed

lemma marks_list: "marks ids s s' \<Longrightarrow> list_all2 (marked ids) (changeLog s) (changeLog s')"
  by (auto simp: marks_def changeLog_def)

text \<open>
  C3, as the code has it. Let the pending changes group into the tables \<open>pre\<close>, then
  \<open>t\<close>, then \<open>post\<close>; let the batches of \<open>pre\<close> be pushed and the push of the
  batch of \<open>t\<close> throw \<open>e\<close>. Then \<open>push\<close> throws \<open>e\<close> in the state that
  \<open>pushTableChanges\<close> left for \<open>t\<close>, with the flag cleared: no table of \<open>post\<close> is
  pushed. The failure is on the console, the only requests after those of \<open>pre\<close> are
  requests for \<open>t\<close>, and in the change log exactly the records of the batches of
  \<open>pre\<close> were marked: every other record is as it was.
\<close>

theorem push_stops_at_first_failure:
  assumes idle: "\<not> isSyncing s" and op: "opened s" and st: "changesStore s = Some cs"
      and groups: "groupByTable (pendingOf s) = pre @ (t, b) # post"
      and before: "pushEach cfg pre (s\<lparr>isSyncing := True\<rparr>) = (Inr (), s1)"
      and fails: "pushTableChanges cfg t b s1 = (Inl e, s2)"
  shows "push cfg s = (Inl e, s2\<lparr>isSyncing := False\<rparr>)
       \<and> consoleErrors s2 \<noteq> []
       \<and> last (consoleErrors s2) = ''[Localbase] Failed to sync table''
       \<and> (remoteCalls s2 = remoteCalls s1 @ upsertCalls cfg t b
          \<or> remoteCalls s2 = remoteCalls s1 @ upsertCalls cfg t b @ deleteCalls cfg t b)
       \<and> list_all2 (marked (batchIds pre)) (changeLog s) (changeLog s2)"
proof -
  let ?s0 = "s\<lparr>isSyncing := True\<rparr>"
  have gp: "getPendingChanges None ?s0 = (Inr (pendingOf s), ?s0)"
    using getPendingChanges_ok[of ?s0 cs] op st by (simp add: pendingOf_flag)
  have ne: "pendingOf s \<noteq> []" using groups groupByTable_Nil[of "pendingOf s"] by auto
  have pe: "pushEach cfg (pre @ (t, b) # post) ?s0 = (Inl e, s2)"
    using before fails by (simp add: pushEach_append bind_def)
  have "bind getChangeTracker (\<lambda>_. bind (getPendingChanges None) (\<lambda>pendingChanges.
        if pendingChanges = [] then ret ()
        else pushEach cfg (groupByTable pendingChanges))) ?s0 = (Inl e, s2)"
    using op gp ne pe groups by (simp add: bind_def getChangeTracker_def)
  then have 1: "push cfg s = (Inl e, s2\<lparr>isSyncing := False\<rparr>)"
    using idle by (simp add: push_def singleFlight_def)
  have st0: "changesStore ?s0 \<noteq> None" using st by simp
  have m: "marks (batchIds pre) ?s0 s1" using pushEach_Inr[OF before st0] by simp
  have "changeLog s2 = changeLog s1"
    using pushTableChanges_Inl[OF fails] by (simp add: changeLog_def)
  moreover have "changeLog ?s0 = changeLog s" by (simp add: changeLog_def)
  ultimately have 2: "list_all2 (marked (batchIds pre)) (changeLog s) (changeLog s2)"
    using marks_list[OF m] by simp
  show ?thesis
    using 1 2 pushTableChanges_Inl[OF fails] pushTableChanges_Inl_calls[OF fails] by simp
qed

theorem push_stops_at_first_failure_witness:
  "push exampleConfig usersThenTodos
     = (Inl (RemoteError ''offline''),
        (snd (pushTableChanges exampleConfig ''todos'' [todosChange]
               (snd (pushEach exampleConfig [(''users'', [usersChange])]
                      (usersThenTodos\<lparr>isSyncing := True\<rparr>)))))\<lparr>isSyncing := False\<rparr>)
   \<and> last (consoleErrors (snd (pushTableChanges exampleConfig ''todos'' [todosChange]
               (snd (pushEach exampleConfig [(''users'', [usersChange])]
                      (usersThenTodos\<lparr>isSyncing := True\<rparr>))))))
       = ''[Localbase] Failed to sync table''
   \<and> list_all2 (marked (batchIds [(''users'', [usersChange])])) (changeLog usersThenTodos)
        (changeLog (snd (pushTableChanges exampleConfig ''todos'' [todosChange]
               (snd (pushEach exampleConfig [(''users'', [usersChange])]
                      (usersThenTodos\<lparr>isSyncing := True\<rparr>))))))"
proof -
  let ?s1 = "snd (pushEach exampleConfig [(''users'', [usersChange])]
                      (usersThenTodos\<lparr>isSyncing := True\<rparr>))"
  let ?s2 = "snd (pushTableChanges exampleConfig ''todos'' [todosChange] ?s1)"
  have idle: "\<not> isSyncing usersThenTodos" by code_simp
  have op: "opened usersThenTodos" by code_simp
  have st: "changesStore usersThenTodos = Some [usersChange, todosChange]" by code_simp
  have groups: "groupByTable (pendingOf usersThenTodos)
                = [(''users'', [usersChange])] @ (''todos'', [todosChange]) # []"
    by code_simp
  have before: "pushEach exampleConfig [(''users'', [usersChange])]
                  (usersThenTodos\<lparr>isSyncing := True\<rparr>) = (Inr (), ?s1)"
    by (rule witness_pair) code_simp
  have fails: "pushTableChanges exampleConfig ''todos'' [todosChange] ?s1
               = (Inl (RemoteError ''offline''), ?s2)"
    by (rule witness_pair) code_simp
  show ?thesis
    using push_stops_at_first_failure[OF idle op st groups before fails] by simp
qed

text \<open>
  The claim as stated fails: with a change pending for \<open>todos\<close> and one for \<open>users\<close>,
  the upsert for \<open>todos\<close> fails, \<open>push\<close> throws, the batch of \<open>users\<close> is never
  sent and its change stays unsynced.
\<close>

theorem push_abandons_later_tables:
  "map fst (groupByTable (pendingOf twoTablesPending)) = [''todos'', ''users'']
   \<and> fst (push exampleConfig twoTablesPending) = Inl (RemoteError ''offline'')
   \<and> remoteCalls (snd (push exampleConfig twoTablesPending))
       = [Upsert ''todos'' [johnItem @ [(''id'', Num 1)]]]
   \<and> map table (pendingOf (snd (push exampleConfig twoTablesPending))) = [''todos'', ''users'']"
  by code_simp

subsection \<open>Pull and the change log\<close>








































end
